theory Spec2Isabelle
  imports Complex_Main
begin

section \<open>The video analysis pipeline of \<^verbatim>\<open>script_generator/scripts/analyze_video.py\<close>\<close>

text \<open>
  The orchestrator \<^verbatim>\<open>analyze_video\<close>, one iteration and the loop of the progress
  monitor \<^verbatim>\<open>log_progress\<close>, and the reducer \<^verbatim>\<open>log_performance\<close> are embedded as
  HOL functions. Exceptions are values of type \<open>error\<close>; the mutable objects of
  the source (the application state, the four queues, the stop event, the local
  \<^verbatim>\<open>threads\<close> list) are fields of a record that every step returns updated.
  The collaborators that live in other modules (the output folder check, the video
  probe, the stage workers, the clock, the user interface callback) are read from a
  record \<open>world\<close>: what each of them does in the run at hand. The text of log lines
  is left out, the values they print are kept. The numbers of the performance
  report are real numbers. The monitor computes in Python floats: its numbers are
  values of type \<open>pyfloat\<close>, every operation rounds its exact result with the
  rounding of the platform, and the conversion of an integer and the formatting of
  a time raise where Python's do.
\<close>

subsection \<open>Values\<close>

datatype error = ZeroDivisionError | OverflowError | Exception string

text \<open>\<^verbatim>\<open>TaskProcessorTypes\<close>: one name per stage worker.\<close>

datatype TaskProcessorTypes = VIDEO | OPENGL | YOLO | YOLO_ANALYSIS

text \<open>
  \<^verbatim>\<open>AnalyzeFrameTask\<close>: the unit of work, with its profile, a dictionary from a
  key to a duration, kept in insertion order.
\<close>

record AnalyzeFrameTask =
  frame_pos :: nat
  profile :: "(string \<times> real) list"

text \<open>What a queue holds: a unit, or \<^verbatim>\<open>None\<close>, the end-of-stream sentinel.\<close>

datatype item = Sentinel | Task AnalyzeFrameTask

text \<open>
  \<^verbatim>\<open>ProgressMessage\<close>. The \<^verbatim>\<open>eta\<close> is a text: a formatted clock time,
  \<^verbatim>\<open>"Calculating..."\<close>, or \<^verbatim>\<open>"Done"\<close>.
\<close>

record ProgressMessage =
  pm_process :: string
  pm_frames_processed :: nat
  pm_total_frames :: nat
  pm_eta :: string

record VideoInfo =
  total_frames :: nat
  fps :: real
  is_vr :: bool
  is_fisheye :: bool

record AnalyzeVideoTask =
  start_time :: real
  end_time :: real
  task_profile :: "(string \<times> real) list"

text \<open>
  \<^verbatim>\<open>AppState\<close>, the fields this module touches. \<open>update_ui\<close> is the optional
  progress sink; a call of it returns \<open>None\<close> or raises \<open>Some e\<close>.
\<close>

record AppState =
  video_path :: string
  video_reader :: string
  video_info :: VideoInfo
  update_ui :: "(ProgressMessage \<Rightarrow> error option) option"
  analyze_task :: AnalyzeVideoTask

text \<open>The four local queues, each as the sequence of everything put on it.\<close>

record queues =
  opengl_q :: "item list"
  yolo_q :: "item list"
  analysis_q :: "item list"
  result_q :: "item list"

datatype queue_name = Opengl_q | Yolo_q | Analysis_q | Result_q

fun received :: "queue_name \<Rightarrow> queues \<Rightarrow> item list" where
  "received Opengl_q qs = opengl_q qs"
| "received Yolo_q qs = yolo_q qs"
| "received Analysis_q qs = analysis_q qs"
| "received Result_q qs = result_q qs"

fun put_all :: "queue_name \<Rightarrow> item list \<Rightarrow> queues \<Rightarrow> queues" where
  "put_all Opengl_q xs qs = qs\<lparr>opengl_q := opengl_q qs @ xs\<rparr>"
| "put_all Yolo_q xs qs = qs\<lparr>yolo_q := yolo_q qs @ xs\<rparr>"
| "put_all Analysis_q xs qs = qs\<lparr>analysis_q := analysis_q qs @ xs\<rparr>"
| "put_all Result_q xs qs = qs\<lparr>result_q := result_q qs @ xs\<rparr>"

definition put :: "queue_name \<Rightarrow> item \<Rightarrow> queues \<Rightarrow> queues" where
  "put q x qs = put_all q [x] qs"

text \<open>
  The performance report: the values \<^verbatim>\<open>log_performance\<close> prints. A stage line is
  the profile key, the average time and the frames per second derived from it.
\<close>

record performance_report =
  rep_total_frames :: nat
  rep_video_duration :: real
  rep_avg_processing_fps :: real
  rep_realtime_percentage :: real
  rep_total_pipeline_time :: real
  rep_stage_lines :: "(string \<times> real \<times> real) list"

text \<open>What the orchestrator does that an observer can see, in order.\<close>

datatype event =
    Warn string
  | Create TaskProcessorTypes
  | StartMonitor
  | Start TaskProcessorTypes
  | Join TaskProcessorTypes "nat option"
  | Put queue_name item
  | CheckException TaskProcessorTypes
  | SetStop
  | LogPerformance performance_report
  | UpdateUI ProgressMessage
  | LogError error

subsection \<open>The collaborators\<close>

text \<open>
  \<open>SEQUENTIAL_MODE\<close> is the constant of \<^verbatim>\<open>script_generator.constants\<close>. The other
  fields say what the code outside this module does in the run:
  \<^item> \<open>check_create_output_folder\<close> and \<open>set_video_info\<close> return or raise;
  \<^item> \<open>make_queues\<close> is \<open>Some e\<close> when a constructor of the four queues (lines 47 to
    50) raises \<open>e\<close>, \<open>make_worker t\<close> when the constructor of worker \<open>t\<close> (lines 53 to 56)
    does, \<open>start_monitor\<close> when building or starting the monitor thread (lines 59 to
    64) does;
  \<^item> \<open>thread_start t\<close> is \<open>Some e\<close> when \<^verbatim>\<open>start()\<close> of worker \<open>t\<close> raises \<open>e\<close>;
  \<^item> \<open>finishes t\<close> says whether the worker's \<^verbatim>\<open>run()\<close> ever ends, \<open>pushed t\<close> is what it
    puts on its output queue, \<open>stored_exception t\<close> the error it caught and kept;
  \<^item> \<open>running_at_failure t\<close> says whether a started worker is still running when the
    exception handler looks at it;
  \<^item> \<open>clock_start\<close> and \<open>clock_end\<close> are the two readings of the clock, and
    \<open>accumulated_profile\<close> the run-level profile the workers filled.

  The capacity of the bounded queues (\<^verbatim>\<open>QUEUE_MAXSIZE\<close>) is not a field: a worker that
  waits for ever on a full queue is a worker that never ends (\<open>finishes\<close>), and the
  sentinels the orchestrator puts in sequential mode are taken to find room.
\<close>

record world =
  SEQUENTIAL_MODE :: bool
  check_create_output_folder :: "string \<Rightarrow> error option"
  set_video_info :: "string \<Rightarrow> error + VideoInfo"
  make_queues :: "error option"
  make_worker :: "TaskProcessorTypes \<Rightarrow> error option"
  start_monitor :: "error option"
  thread_start :: "TaskProcessorTypes \<Rightarrow> error option"
  finishes :: "TaskProcessorTypes \<Rightarrow> bool"
  pushed :: "TaskProcessorTypes \<Rightarrow> item list"
  stored_exception :: "TaskProcessorTypes \<Rightarrow> error option"
  running_at_failure :: "TaskProcessorTypes \<Rightarrow> bool"
  clock_start :: real
  clock_end :: real
  accumulated_profile :: "(string \<times> real) list"

text \<open>
  The state of one call of \<^verbatim>\<open>analyze_video\<close>: the application state, the stop event of
  the monitor, the local list \<^verbatim>\<open>threads\<close>, the queues, the workers started and the
  workers whose \<^verbatim>\<open>run()\<close> is known to have ended, and the events so far.
\<close>

record run =
  state :: AppState
  log_thread_stop_event :: bool
  threads :: "TaskProcessorTypes list"
  queues :: queues
  started :: "TaskProcessorTypes list"
  finished :: "TaskProcessorTypes list"
  events :: "event list"

text \<open>
  How a step ends: it falls through to the next statement, it raises, or it blocks
  for ever (a \<^verbatim>\<open>join()\<close> without timeout on a worker that never ends).
\<close>

datatype status = Next | Raise error | Block

datatype outcome = Returned "item list" | Raised error | Hangs

definition then_do :: "status \<times> run \<Rightarrow> (run \<Rightarrow> status \<times> run) \<Rightarrow> status \<times> run" where
  "then_do s f = (case s of (Next, r) \<Rightarrow> f r | (Raise e, r) \<Rightarrow> (Raise e, r) | (Block, r) \<Rightarrow> (Block, r))"

definition emit :: "event list \<Rightarrow> run \<Rightarrow> run" where
  "emit es r = r\<lparr>events := events r @ es\<rparr>"

subsection \<open>Arithmetic that can raise\<close>

text \<open>Python's \<^verbatim>\<open>/\<close>: it raises \<^verbatim>\<open>ZeroDivisionError\<close> on a zero divisor.\<close>

definition truediv :: "real \<Rightarrow> real \<Rightarrow> error + real" where
  "truediv a b = (if b = 0 then Inl ZeroDivisionError else Inr (a / b))"

definition endswith :: "string \<Rightarrow> string \<Rightarrow> bool" where
  "endswith s suffix = (length suffix \<le> length s \<and> drop (length s - length suffix) s = suffix)"

subsection \<open>\<^verbatim>\<open>log_performance\<close>\<close>

text \<open>\<^verbatim>\<open>hasattr(task, 'profile')\<close>: a unit has the attribute, \<^verbatim>\<open>None\<close> has not.\<close>

fun hasattr_profile :: "item \<Rightarrow> bool" where
  "hasattr_profile Sentinel = False"
| "hasattr_profile (Task t) = True"

fun items :: "item \<Rightarrow> (string \<times> real) list" where
  "items Sentinel = []"
| "items (Task t) = profile t"

text \<open>
  One step of the aggregation in the parallel report: a key seen for the first time
  enters the dictionary at the end with a zero total and a zero count, then the
  total grows by the duration and the count by one.
\<close>

fun add_time :: "string \<Rightarrow> real \<Rightarrow> (string \<times> real \<times> nat) list \<Rightarrow> (string \<times> real \<times> nat) list" where
  "add_time key t [] = [(key, 0 + t, 0 + 1)]"
| "add_time key t ((k, total_time, task_count) # rest) =
     (if k = key then (k, total_time + t, task_count + 1) # rest
      else (k, total_time, task_count) # add_time key t rest)"

definition aggregate :: "item list \<Rightarrow> (string \<times> real \<times> nat) list" where
  "aggregate tasks =
     foldl (\<lambda>aggregated_times (key, total_time).
              if endswith key ''_duration'' then add_time key total_time aggregated_times
              else aggregated_times)
       [] (concat (map items tasks))"

definition stage_line :: "nat \<Rightarrow> string \<Rightarrow> real \<Rightarrow> string \<times> real \<times> real" where
  "stage_line n_frames key total_time =
     (let avg_time = (if n_frames > 0 then total_time / real n_frames else 0)
      in (key, avg_time, (if avg_time > 0 then 1 / avg_time else 0)))"

definition log_performance :: "bool \<Rightarrow> AppState \<Rightarrow> item list \<Rightarrow> error + performance_report" where
  "log_performance sequential_mode st results_queue =
     (let tasks = filter hasattr_profile results_queue;
          total_frames = length tasks;
          total_pipeline_time = end_time (analyze_task st) - start_time (analyze_task st)
      in case truediv (real total_frames) (fps (video_info st)) of
           Inl e \<Rightarrow> Inl e
         | Inr video_duration \<Rightarrow>
            (case truediv (real total_frames) total_pipeline_time of
               Inl e \<Rightarrow> Inl e
             | Inr avg_processing_fps \<Rightarrow>
                 Inr \<lparr>rep_total_frames = total_frames,
                      rep_video_duration = video_duration,
                      rep_avg_processing_fps = avg_processing_fps,
                      rep_realtime_percentage = (avg_processing_fps / 60) * 100,
                      rep_total_pipeline_time = total_pipeline_time,
                      rep_stage_lines =
                        (if sequential_mode
                         then map (\<lambda>(key, total_time). stage_line total_frames key total_time)
                                (filter (\<lambda>(key, total_time). endswith key ''_duration'')
                                   (task_profile (analyze_task st)))
                         else map (\<lambda>(key, total_time, task_count). stage_line total_frames key total_time)
                                (aggregate tasks))\<rparr>))"

subsection \<open>\<^verbatim>\<open>log_progress\<close>\<close>

text \<open>
  What one pass of the monitor's loop reads: the four queue sizes, the clock (a
  finite double, given as the real number it denotes, as the start time of the
  task is), and whether the stop event is found set at the loop test.
\<close>

record poll =
  opengl_size :: nat
  yolo_size :: nat
  analysis_size :: nat
  frames_processed :: nat
  time_now :: real
  stop_is_set :: bool

text \<open>
  A Python float: a finite double, given as the real number it denotes (the two
  zeros are one value), an infinity, or not a number.
\<close>

datatype pyfloat = Finite real | PosInf | NegInf | NaN

text \<open>
  What the platform gives the monitor: \<open>nearest\<close> rounds the exact result of an
  operation to a double, to an infinity when it is out of range;
  \<open>strftime_gmtime eta\<close> is \<^verbatim>\<open>time.strftime("%H:%M:%S", time.gmtime(eta))\<close>, the text
  of the clock time or the error the call raises (a time that is negative, not a
  number, or too large for the platform).
\<close>

record platform =
  nearest :: "real \<Rightarrow> pyfloat"
  strftime_gmtime :: "pyfloat \<Rightarrow> error + string"

text \<open>The test \<^verbatim>\<open>x > 0\<close> on a float.\<close>

fun positive :: "pyfloat \<Rightarrow> bool" where
  "positive (Finite x) = (0 < x)"
| "positive PosInf = True"
| "positive NegInf = False"
| "positive NaN = False"

fun is_inf :: "pyfloat \<Rightarrow> bool" where
  "is_inf PosInf = True"
| "is_inf NegInf = True"
| "is_inf (Finite x) = False"
| "is_inf NaN = False"

text \<open>
  The conversion of an integer operand of \<^verbatim>\<open>/\<close> to a float: the nearest double, and
  \<^verbatim>\<open>OverflowError\<close> for an integer beyond the range of the doubles.
\<close>

definition int_to_float :: "(real \<Rightarrow> pyfloat) \<Rightarrow> int \<Rightarrow> error + pyfloat" where
  "int_to_float rnd k = (if is_inf (rnd (real_of_int k)) then Inl OverflowError
                         else Inr (rnd (real_of_int k)))"

text \<open>
  The double that \<^verbatim>\<open>a / b\<close> evaluates to for a divisor that is not zero: the rounded
  quotient of two finite doubles, and the results the double format fixes for an
  infinity or a not-a-number among the operands. For a zero divisor the division
  of Python raises and no quotient is computed; \<open>quotient\<close> is \<open>NaN\<close> there.
\<close>

fun quotient :: "(real \<Rightarrow> pyfloat) \<Rightarrow> pyfloat \<Rightarrow> pyfloat \<Rightarrow> pyfloat" where
  "quotient rnd (Finite x) (Finite y) = (if y = 0 then NaN else rnd (x / y))"
| "quotient rnd (Finite x) PosInf = Finite 0"
| "quotient rnd (Finite x) NegInf = Finite 0"
| "quotient rnd PosInf (Finite y) = (if 0 < y then PosInf else if y < 0 then NegInf else NaN)"
| "quotient rnd NegInf (Finite y) = (if 0 < y then NegInf else if y < 0 then PosInf else NaN)"
| "quotient rnd a b = NaN"

text \<open>
  Python's \<^verbatim>\<open>/\<close> on two floats raises \<^verbatim>\<open>ZeroDivisionError\<close> on a zero divisor; with
  an integer on the left the integer is converted first.
\<close>

definition float_truediv :: "(real \<Rightarrow> pyfloat) \<Rightarrow> pyfloat \<Rightarrow> pyfloat \<Rightarrow> error + pyfloat" where
  "float_truediv rnd a b = (if b = Finite 0 then Inl ZeroDivisionError else Inr (quotient rnd a b))"

definition int_truediv :: "(real \<Rightarrow> pyfloat) \<Rightarrow> int \<Rightarrow> pyfloat \<Rightarrow> error + pyfloat" where
  "int_truediv rnd k b =
     (case int_to_float rnd k of
        Inl e \<Rightarrow> Inl e
      | Inr a \<Rightarrow> float_truediv rnd a b)"

text \<open>
  Lines 150 to 152: the processing rate and the estimate of the time left. The
  integer \<^verbatim>\<open>0\<close> of line 150 is the float zero here: the only use of the rate after it
  is the test \<^verbatim>\<open>processing_rate > 0\<close>.
\<close>

definition estimate :: "(real \<Rightarrow> pyfloat) \<Rightarrow> nat \<Rightarrow> nat \<Rightarrow> pyfloat \<Rightarrow> error + (pyfloat \<times> pyfloat)" where
  "estimate rnd n_frames n_processed elapsed_time =
     (case (if positive elapsed_time then int_truediv rnd (int n_processed) elapsed_time
            else Inr (Finite 0)) of
        Inl e \<Rightarrow> Inl e
      | Inr processing_rate \<Rightarrow>
          (let remaining_frames = int n_frames - int n_processed
           in case (if positive processing_rate
                    then int_truediv rnd remaining_frames processing_rate
                    else Inr PosInf) of
                Inl e \<Rightarrow> Inl e
              | Inr eta \<Rightarrow> Inr (processing_rate, eta)))"

text \<open>Line 158: the text of the estimate. Formatting the time can raise.\<close>

definition eta_string :: "platform \<Rightarrow> pyfloat \<Rightarrow> error + string" where
  "eta_string pf eta = (if eta \<noteq> PosInf then strftime_gmtime pf eta else Inr ''Calculating...'')"

text \<open>
  The result of one pass: the stop event after it, the position of the progress
  bar, the message handed to the sink (if there is a sink and the message could be
  built) and the error logged when building the message or the sink raised.
\<close>

record pass =
  stop_after :: bool
  bar_n :: nat
  bar_postfix :: "(string \<times> nat) list"
  sent :: "ProgressMessage option"
  logged :: "error option"

text \<open>
  Lines 133 to 161, one pass. The elapsed time is the difference of two floats,
  rounded. Lines 149 to 152 stand before the \<^verbatim>\<open>try\<close>: what they raise leaves the
  pass. The text of the estimate is built inside the \<^verbatim>\<open>try\<close>, as an argument of the
  message: when that raises, the sink is not called and the error is logged.
\<close>

definition log_progress_pass :: "platform \<Rightarrow> AppState \<Rightarrow> poll \<Rightarrow> error + pass" where
  "log_progress_pass pf st p =
     (let total = total_frames (video_info st);
          open_gl = (if video_reader st = ''FFmpeg + OpenGL (Windows)''
                     then [(''OpenGL'', opengl_size p)] else []);
          postfix = open_gl @ [(''YOLO'', yolo_size p), (''Analysis'', analysis_size p)];
          stop = (frames_processed p \<ge> total)
      in case update_ui st of
           None \<Rightarrow>
             Inr \<lparr>stop_after = stop, bar_n = frames_processed p, bar_postfix = postfix,
                  sent = None, logged = None\<rparr>
         | Some sink \<Rightarrow>
            (let elapsed_time = nearest pf (time_now p - start_time (analyze_task st))
             in case estimate (nearest pf) total (frames_processed p) elapsed_time of
                  Inl e \<Rightarrow> Inl e
                | Inr (processing_rate, eta) \<Rightarrow>
                   (case eta_string pf eta of
                      Inl e \<Rightarrow>
                        Inr \<lparr>stop_after = stop, bar_n = frames_processed p,
                             bar_postfix = postfix, sent = None, logged = Some e\<rparr>
                    | Inr text \<Rightarrow>
                       (let msg = \<lparr>pm_process = ''OBJECT_DETECTION'',
                                   pm_frames_processed = frames_processed p,
                                   pm_total_frames = total,
                                   pm_eta = text\<rparr>
                        in Inr \<lparr>stop_after = stop, bar_n = frames_processed p,
                                bar_postfix = postfix,
                                sent = Some msg, logged = sink msg\<rparr>))))"

text \<open>
  The loop, over the passes the monitor gets to make: it ends when the stop event
  is set, by the orchestrator or by an earlier pass, and an exception that escapes
  a pass ends the thread.
\<close>

fun log_progress :: "platform \<Rightarrow> AppState \<Rightarrow> bool \<Rightarrow> poll list \<Rightarrow> error + pass list" where
  "log_progress pf st stop [] = Inr []"
| "log_progress pf st stop (p # ps) =
     (if stop \<or> stop_is_set p then Inr []
      else case log_progress_pass pf st p of
             Inl e \<Rightarrow> Inl e
           | Inr res \<Rightarrow> map_sum id ((#) res) (log_progress pf st (stop_after res) ps))"

subsection \<open>\<^verbatim>\<open>analyze_video\<close>\<close>

text \<open>
  Lines 33 to 40: the reader preference is overwritten on the state itself when
  the OpenGL reader is asked for and the video is not VR, or is fisheye.
\<close>

definition disable_opengl :: "AppState \<Rightarrow> event list \<times> AppState" where
  "disable_opengl st =
     (if video_reader st = ''FFmpeg + OpenGL (Windows)'' then
        (let (w1, st1) =
               (if \<not> is_vr (video_info st)
                then ([Warn ''Disabled OpenGL in the pipeline as it's not needed for 2D videos''],
                      st\<lparr>video_reader := ''FFmpeg''\<rparr>)
                else ([], st));
             (w2, st2) =
               (if is_fisheye (video_info st1)
                then ([Warn ''Disabled OpenGL as fisheye is not yet supported with the opengl feature''],
                      st1\<lparr>video_reader := ''FFmpeg''\<rparr>)
                else ([], st1))
         in (w1 @ w2, st2))
      else ([], st))"

definition use_open_gl :: "AppState \<Rightarrow> bool" where
  "use_open_gl st = (video_reader st = ''FFmpeg + OpenGL (Windows)'')"

text \<open>
  Lines 53 to 56 and 81: the workers that are built, in stage order (the OpenGL
  worker is \<^verbatim>\<open>None\<close> without OpenGL), and the queue each one writes to.
\<close>

definition workers :: "bool \<Rightarrow> TaskProcessorTypes list" where
  "workers gl = (if gl then [VIDEO, OPENGL, YOLO, YOLO_ANALYSIS] else [VIDEO, YOLO, YOLO_ANALYSIS])"

fun output_queue :: "bool \<Rightarrow> TaskProcessorTypes \<Rightarrow> queue_name" where
  "output_queue gl VIDEO = (if gl then Opengl_q else Yolo_q)"
| "output_queue gl OPENGL = Yolo_q"
| "output_queue gl YOLO = Analysis_q"
| "output_queue gl YOLO_ANALYSIS = Result_q"

text \<open>
  Lines 53 to 56: the constructors of the workers, one after the other, in stage
  order. When one raises, the workers before it are built already.
\<close>

fun create_all :: "world \<Rightarrow> TaskProcessorTypes list \<Rightarrow> run \<Rightarrow> status \<times> run" where
  "create_all w [] r = (Next, r)"
| "create_all w (t # ts) r =
     (case make_worker w t of
        Some e \<Rightarrow> (Raise e, r)
      | None \<Rightarrow> create_all w ts (emit [Create t] r))"

text \<open>Lines 59 to 64: the monitor thread is built and started.\<close>

definition start_monitor_thread :: "world \<Rightarrow> run \<Rightarrow> status \<times> run" where
  "start_monitor_thread w r =
     (case start_monitor w of
        Some e \<Rightarrow> (Raise e, r)
      | None \<Rightarrow> (Next, emit [StartMonitor] r))"

text \<open>
  Lines 29 to 64: everything before the workers are started. The new task of line
  44 carries the start time; its end time is written at line 92 before anything
  reads it.
\<close>

definition prepare :: "world \<Rightarrow> run \<Rightarrow> status \<times> run" where
  "prepare w r =
     (case check_create_output_folder w (video_path (state r)) of
        Some e \<Rightarrow> (Raise e, r)
      | None \<Rightarrow>
         (case set_video_info w (video_path (state r)) of
            Inl e \<Rightarrow> (Raise e, r)
          | Inr info \<Rightarrow>
             (let (warnings, st) = disable_opengl ((state r)\<lparr>video_info := info\<rparr>);
                  r1 = emit warnings
                         (r\<lparr>state := st\<lparr>analyze_task :=
                              \<lparr>start_time = clock_start w, end_time = clock_start w,
                               task_profile = []\<rparr>\<rparr>\<rparr>)
              in case make_queues w of
                   Some e \<Rightarrow> (Raise e, r1)
                 | None \<Rightarrow>
                     then_do (create_all w (workers (use_open_gl st)) r1)
                       (start_monitor_thread w))))"

text \<open>
  \<^verbatim>\<open>thread.start()\<close> and \<^verbatim>\<open>thread.join()\<close>. A join without timeout returns when the
  worker has ended, and by then all the worker put on its output queue is there.
\<close>

definition start :: "world \<Rightarrow> TaskProcessorTypes \<Rightarrow> run \<Rightarrow> status \<times> run" where
  "start w t r =
     (case thread_start w t of
        Some e \<Rightarrow> (Raise e, r)
      | None \<Rightarrow> (Next, emit [Start t] (r\<lparr>started := started r @ [t]\<rparr>)))"

definition join :: "world \<Rightarrow> TaskProcessorTypes \<Rightarrow> run \<Rightarrow> status \<times> run" where
  "join w t r =
     (if finishes w t
      then (Next, emit [Join t None]
                    (r\<lparr>finished := finished r @ [t],
                       queues := put_all (output_queue (use_open_gl (state r)) t) (pushed w t) (queues r)\<rparr>))
      else (Block, emit [Join t None] r))"

text \<open>Lines 68 to 73, the local function of sequential mode.\<close>

definition run_thread :: "world \<Rightarrow> TaskProcessorTypes \<Rightarrow> queue_name \<Rightarrow> run \<Rightarrow> status \<times> run" where
  "run_thread w thread out_queue r =
     then_do (then_do (start w thread r) (join w thread))
       (\<lambda>r. (Next, emit [Put out_queue Sentinel] (r\<lparr>queues := put out_queue Sentinel (queues r)\<rparr>)))"

text \<open>Lines 75 to 79.\<close>

definition run_sequential :: "world \<Rightarrow> run \<Rightarrow> status \<times> run" where
  "run_sequential w r =
     then_do (then_do (then_do (run_thread w VIDEO Opengl_q r)
       (\<lambda>r. if use_open_gl (state r) then run_thread w OPENGL Yolo_q r else (Next, r)))
       (run_thread w YOLO Analysis_q))
       (run_thread w YOLO_ANALYSIS Result_q)"

text \<open>Lines 82 to 85: the two loops over \<^verbatim>\<open>threads\<close>.\<close>

fun start_all :: "world \<Rightarrow> TaskProcessorTypes list \<Rightarrow> run \<Rightarrow> status \<times> run" where
  "start_all w [] r = (Next, r)"
| "start_all w (t # ts) r = then_do (start w t r) (start_all w ts)"

fun join_all :: "world \<Rightarrow> TaskProcessorTypes list \<Rightarrow> run \<Rightarrow> status \<times> run" where
  "join_all w [] r = (Next, r)"
| "join_all w (t # ts) r = then_do (join w t r) (join_all w ts)"

text \<open>
  Modelled from the spec: \<^verbatim>\<open>check_exception()\<close> is a method of the worker classes,
  which are not in this module; the spec has it expose the error the worker
  stored, and the orchestrator's loop has no \<^verbatim>\<open>raise\<close> of its own, so the call
  raises the stored error and returns when there is none.
\<close>

definition check_exception :: "world \<Rightarrow> TaskProcessorTypes \<Rightarrow> error option" where
  "check_exception w t = stored_exception w t"

text \<open>Lines 88 to 90.\<close>

fun check_all :: "world \<Rightarrow> TaskProcessorTypes list \<Rightarrow> run \<Rightarrow> status \<times> run" where
  "check_all w [] r = (Next, r)"
| "check_all w (t # ts) r =
     (case check_exception w t of
        Some e \<Rightarrow> (Raise e, emit [CheckException t] r)
      | None \<Rightarrow> check_all w ts (emit [CheckException t] r))"

text \<open>Lines 81 to 90.\<close>

definition run_concurrent :: "world \<Rightarrow> run \<Rightarrow> status \<times> run" where
  "run_concurrent w r =
     (let r1 = r\<lparr>threads := workers (use_open_gl (state r))\<rparr>
      in then_do (then_do (start_all w (threads r1) r1) (join_all w (threads r1)))
           (check_all w (threads r1)))"

text \<open>Lines 92 to 104: the end time, the stop event, the report, the last update.\<close>

definition finish :: "world \<Rightarrow> run \<Rightarrow> status \<times> run" where
  "finish w r =
     (let st = (state r)\<lparr>analyze_task :=
                  (analyze_task (state r))\<lparr>end_time := clock_end w,
                                            task_profile := accumulated_profile w\<rparr>\<rparr>;
          r1 = emit [SetStop] (r\<lparr>state := st, log_thread_stop_event := True\<rparr>)
      in case log_performance (SEQUENTIAL_MODE w) st (result_q (queues r1)) of
           Inl e \<Rightarrow> (Raise e, r1)
         | Inr report \<Rightarrow>
            (let r2 = emit [LogPerformance report] r1
             in case update_ui st of
                  None \<Rightarrow> (Next, r2)
                | Some sink \<Rightarrow>
                   (let msg = \<lparr>pm_process = ''OBJECT_DETECTION'',
                               pm_frames_processed = total_frames (video_info st),
                               pm_total_frames = total_frames (video_info st),
                               pm_eta = ''Done''\<rparr>
                    in case sink msg of
                         Some e \<Rightarrow> (Raise e, emit [UpdateUI msg] r2)
                       | None \<Rightarrow> (Next, emit [UpdateUI msg] r2))))"

text \<open>Lines 27 to 106, the body of the \<^verbatim>\<open>try\<close>.\<close>

definition try_body :: "world \<Rightarrow> run \<Rightarrow> status \<times> run" where
  "try_body w r =
     then_do (then_do (prepare w r)
       (if SEQUENTIAL_MODE w then run_sequential w else run_concurrent w))
       (finish w)"

text \<open>
  Lines 108 to 115, the handler. A thread is alive when it was started and its
  \<^verbatim>\<open>run()\<close> has not ended.
\<close>

definition is_alive :: "world \<Rightarrow> run \<Rightarrow> TaskProcessorTypes \<Rightarrow> bool" where
  "is_alive w r t =
     (t \<in> set (started r) \<and> t \<notin> set (finished r) \<and> (\<not> finishes w t \<or> running_at_failure w t))"

definition handler :: "world \<Rightarrow> error \<Rightarrow> run \<Rightarrow> run" where
  "handler w e r =
     emit ([LogError e, SetStop] @ map (\<lambda>t. Join t (Some 1)) (filter (is_alive w r) (threads r)))
       (r\<lparr>log_thread_stop_event := True\<rparr>)"

definition new_run :: "AppState \<Rightarrow> run" where
  "new_run st =
     \<lparr>state = st, log_thread_stop_event = False, threads = [],
      queues = \<lparr>opengl_q = [], yolo_q = [], analysis_q = [], result_q = []\<rparr>,
      started = [], finished = [], events = []\<rparr>"

definition analyze_video :: "world \<Rightarrow> AppState \<Rightarrow> outcome \<times> run" where
  "analyze_video w st =
     (case try_body w (new_run st) of
        (Next, r) \<Rightarrow> (Returned (result_q (queues r)), r)
      | (Raise e, r) \<Rightarrow> (Raised e, handler w e r)
      | (Block, r) \<Rightarrow> (Hangs, r))"

subsection \<open>Notions used in the statements\<close>

text \<open>
  The value of \<^verbatim>\<open>use_open_gl\<close> at line 42, in terms of the reader the caller asked
  for and of what the probe found: the conversion stage stays only for a VR video
  that is not fisheye.
\<close>

definition conversion :: "AppState \<Rightarrow> VideoInfo \<Rightarrow> bool" where
  "conversion st info =
     (video_reader st = ''FFmpeg + OpenGL (Windows)'' \<and> is_vr info \<and> \<not> is_fisheye info)"

text \<open>
  Three kinds of events: those of the preparation (a warning, a worker built),
  those that concern a worker thread (started, joined, asked for its exception),
  and the calls of \<^verbatim>\<open>check_exception()\<close>.
\<close>

fun setup_event :: "event \<Rightarrow> bool" where
  "setup_event (Warn m) = True"
| "setup_event (Create t) = True"
| "setup_event _ = False"

fun worker_event :: "event \<Rightarrow> bool" where
  "worker_event (Start t) = True"
| "worker_event (Join t timeout) = True"
| "worker_event (CheckException t) = True"
| "worker_event _ = False"

fun is_check :: "event \<Rightarrow> bool" where
  "is_check (CheckException t) = True"
| "is_check _ = False"

text \<open>
  A run is settled when every worker that was started is known to have ended or
  stands in the list \<^verbatim>\<open>threads\<close>, where the handler looks for it.
\<close>

definition settled :: "run \<Rightarrow> bool" where
  "settled r = (set (started r) \<subseteq> set (finished r) \<union> set (threads r))"

subsection \<open>The claims in the words of the specification\<close>

text \<open>
  The specification counts the completed units "with a non-empty profile". This
  is that count, written from its words, to be compared with what
  \<open>log_performance\<close> computes.
\<close>

definition has_nonempty_profile :: "item \<Rightarrow> bool" where
  "has_nonempty_profile x = (case x of Sentinel \<Rightarrow> False | Task t \<Rightarrow> profile t \<noteq> [])"

subsection \<open>Concrete runs\<close>

text \<open>
  A unit that went through the detection stage, a unit whose profile is empty, a
  flat video of one frame, an application state and a world in which nothing
  raises, every worker ends and puts \<open>out\<close> on its output queue.
\<close>

definition unit1 :: item where
  "unit1 = Task \<lparr>frame_pos = 0, profile = [(''yolo_duration'', 1 / 2)]\<rparr>"

definition empty_unit :: item where
  "empty_unit = Task \<lparr>frame_pos = 0, profile = []\<rparr>"

definition flat_video :: VideoInfo where
  "flat_video = \<lparr>total_frames = 1, fps = 25, is_vr = False, is_fisheye = False\<rparr>"

definition app0 :: "string \<Rightarrow> (ProgressMessage \<Rightarrow> error option) option \<Rightarrow> AppState" where
  "app0 reader sink =
     \<lparr>video_path = ''clip.mp4'', video_reader = reader, video_info = flat_video,
      update_ui = sink,
      analyze_task = \<lparr>start_time = 0, end_time = 2, task_profile = []\<rparr>\<rparr>"

definition calm_world :: "bool \<Rightarrow> VideoInfo \<Rightarrow> item list \<Rightarrow> world" where
  "calm_world seq info out =
     \<lparr>SEQUENTIAL_MODE = seq, check_create_output_folder = (\<lambda>_. None),
      set_video_info = (\<lambda>_. Inr info), make_queues = None, make_worker = (\<lambda>_. None),
      start_monitor = None, thread_start = (\<lambda>_. None),
      finishes = (\<lambda>_. True), pushed = (\<lambda>_. out), stored_exception = (\<lambda>_. None),
      running_at_failure = (\<lambda>_. False), clock_start = 0, clock_end = 2,
      accumulated_profile = []\<rparr>"

text \<open>
  A platform for the examples: every real below \<open>2 ^ 1024\<close> in absolute value is a
  double, and a time of less than a second that is not negative is formatted.
\<close>

definition wide_platform :: platform where
  "wide_platform =
     \<lparr>nearest = (\<lambda>x. if \<bar>x\<bar> < 2 ^ 1024 then Finite x else if 0 < x then PosInf else NegInf),
      strftime_gmtime = (\<lambda>eta. case eta of
                           Finite x \<Rightarrow> if 0 \<le> x \<and> x < 1 then Inr ''00:00:00''
                                       else Inl (Exception ''gmtime'')
                         | _ \<Rightarrow> Inl OverflowError)\<rparr>"

text \<open>Two passes of the monitor: what it reads two and four seconds after the start.\<close>

definition two_seconds_in :: poll where
  "two_seconds_in = \<lparr>opengl_size = 0, yolo_size = 1, analysis_size = 0, frames_processed = 0,
                      time_now = 2, stop_is_set = False\<rparr>"

definition four_seconds_in :: poll where
  "four_seconds_in = \<lparr>opengl_size = 0, yolo_size = 0, analysis_size = 0, frames_processed = 1,
                       time_now = 4, stop_is_set = False\<rparr>"

definition failing_sink :: "ProgressMessage \<Rightarrow> error option" where
  "failing_sink msg = Some (Exception ''sink'')"

text \<open>
  Stored errors of the detection and the analysis stage; a world in which
  \<^verbatim>\<open>start()\<close> of the detection worker raises; and, with it, a concurrent run whose
  decode worker is, or is not, still running when the handler looks.
\<close>

fun stage_errors :: "TaskProcessorTypes \<Rightarrow> error option" where
  "stage_errors VIDEO = None"
| "stage_errors OPENGL = None"
| "stage_errors YOLO = Some (Exception ''yolo'')"
| "stage_errors YOLO_ANALYSIS = Some (Exception ''analysis'')"

fun yolo_start_fails :: "TaskProcessorTypes \<Rightarrow> error option" where
  "yolo_start_fails YOLO = Some (Exception ''start'')"
| "yolo_start_fails t = None"

definition stuck_world :: "bool \<Rightarrow> world" where
  "stuck_world running =
     (calm_world False flat_video [unit1])
       \<lparr>thread_start := yolo_start_fails, running_at_failure := (\<lambda>t. running)\<rparr>"

section \<open>Properties\<close>

lemmas pipeline_defs =
  analyze_video_def try_body_def prepare_def start_monitor_thread_def
  run_sequential_def run_concurrent_def
  run_thread_def start_def join_def finish_def handler_def is_alive_def check_exception_def
  then_do_def emit_def new_run_def disable_opengl_def use_open_gl_def workers_def put_def
  log_performance_def truediv_def stage_line_def aggregate_def endswith_def

lemmas example_defs = unit1_def flat_video_def app0_def calm_world_def

subsection \<open>The returned collection\<close>

text \<open>
  C1. The claim: every element of the collection \<open>analyze_video\<close> returns is a
  completed unit, the sentinel is not among them. In sequential mode
  \<open>run_thread\<close> puts \<^verbatim>\<open>None\<close> on the results queue after the last stage (line 72,
  called at line 79), and line 106 returns the queue as it is: with workers that
  put nothing but the unit on their queues, the flat one-frame video returns the
  unit followed by the sentinel.
\<close>

theorem sequential_run_returns_sentinel:
  "fst (analyze_video (calm_world True flat_video [unit1]) (app0 ''FFmpeg'' None))
     = Returned [unit1, Sentinel]"
  by (simp add: pipeline_defs example_defs)

subsection \<open>Sentinels per queue\<close>

text \<open>
  C2. The claim: every queue receives exactly one sentinel and no unit after it, in
  both modes. In sequential mode on a flat video the decode worker writes to
  \<open>yolo_q\<close> (line 53) and line 75 puts its sentinel on \<open>opengl_q\<close>. With workers that
  end their stream with a sentinel of their own, \<open>analysis_q\<close> and \<open>result_q\<close>
  receive two sentinels; with workers that leave the sentinel to the
  orchestrator, \<open>yolo_q\<close> receives none.
\<close>

theorem sequential_flat_run_sentinels:
  "queues (snd (analyze_video (calm_world True flat_video [unit1, Sentinel]) (app0 ''FFmpeg'' None)))
     = \<lparr>opengl_q = [Sentinel], yolo_q = [unit1, Sentinel],
        analysis_q = [unit1, Sentinel, Sentinel], result_q = [unit1, Sentinel, Sentinel]\<rparr>
   \<and> queues (snd (analyze_video (calm_world True flat_video [unit1]) (app0 ''FFmpeg'' None)))
     = \<lparr>opengl_q = [Sentinel], yolo_q = [unit1],
        analysis_q = [unit1, Sentinel], result_q = [unit1, Sentinel]\<rparr>"
  by (simp add: pipeline_defs example_defs)

subsection \<open>A sink that raises\<close>

text \<open>
  In a pass of the monitor the call of the sink stands in a \<^verbatim>\<open>try\<close>: what it
  raises is logged, and the pass ends as without it. So does a pass in which the
  text of the estimate cannot be built.
\<close>

lemma log_progress_pass_sink:
  "update_ui st = Some sink \<Longrightarrow> log_progress_pass pf st p = Inr res \<Longrightarrow>
     (\<exists>msg. sent res = Some msg \<and> logged res = sink msg)
     \<or> (sent res = None \<and> (\<exists>e. logged res = Some e))"
  by (auto simp: log_progress_pass_def Let_def split: sum.splits prod.splits)

text \<open>
  C3. The claim: no exception of the sink leaves \<open>analyze_video\<close>, in the monitor's
  updates and in the final update alike. The final update (lines 98 to 104) has
  no \<^verbatim>\<open>try\<close> of its own: the run that returns the unit without a sink raises the
  sink's error with a sink that raises.
\<close>

theorem final_update_error_propagates:
  "fst (analyze_video (calm_world False flat_video [unit1]) (app0 ''FFmpeg'' (Some failing_sink)))
     = Raised (Exception ''sink'')
   \<and> fst (analyze_video (calm_world False flat_video [unit1]) (app0 ''FFmpeg'' None))
     = Returned [unit1]"
  by (simp add: pipeline_defs example_defs failing_sink_def)

subsection \<open>The monitor's estimate\<close>

lemma positive_nonzero: "positive b \<Longrightarrow> b \<noteq> Finite 0"
  by (cases b) auto

lemma int_truediv_value:
  "positive b \<Longrightarrow>
     int_truediv rnd k b
       = (if is_inf (rnd (real_of_int k)) then Inl OverflowError
          else Inr (quotient rnd (rnd (real_of_int k)) b))"
  by (auto simp: int_truediv_def int_to_float_def float_truediv_def dest: positive_nonzero)

lemma estimate_value:
  "estimate rnd m n elapsed =
     (let completed = rnd (real n);
          remaining = rnd (real_of_int (int m - int n));
          rate = (if positive elapsed then quotient rnd completed elapsed else Finite 0);
          eta = (if positive rate then quotient rnd remaining rate else PosInf)
      in if (positive elapsed \<and> is_inf completed) \<or> (positive rate \<and> is_inf remaining)
         then Inl OverflowError else Inr (rate, eta))"
proof (cases "positive elapsed")
  case True
  note el = this
  show ?thesis
  proof (cases "is_inf (rnd (real n))")
    case True
    with el show ?thesis
      using int_truediv_value [of elapsed rnd "int n"] by (simp add: estimate_def Let_def)
  next
    case False
    with el show ?thesis
      using int_truediv_value [of elapsed rnd "int n"]
        int_truediv_value [of "quotient rnd (rnd (real n)) elapsed" rnd "int m - int n"]
      by (simp add: estimate_def Let_def)
  qed
next
  case False
  then show ?thesis
    by (simp add: estimate_def Let_def)
qed

lemma estimate_error: "estimate rnd m n elapsed = Inl e \<Longrightarrow> e = OverflowError"
  by (simp add: estimate_value Let_def split: if_splits)

lemma log_progress_pass_error: "log_progress_pass pf st p = Inl e \<Longrightarrow> e = OverflowError"
  by (auto simp: log_progress_pass_def Let_def dest: estimate_error
      split: option.splits sum.splits prod.splits)

lemma log_progress_error: "log_progress pf st stop ps = Inl e \<Longrightarrow> e = OverflowError"
proof (induction ps arbitrary: stop)
  case Nil
  then show ?case by simp
next
  case (Cons p ps)
  show ?case
  proof (cases "log_progress_pass pf st p")
    case (Inl e')
    with Cons.prems show ?thesis
      using log_progress_pass_error [of pf st p e'] by (simp split: if_splits)
  next
    case (Inr res)
    with Cons.prems have "log_progress pf st (stop_after res) ps = Inl e"
      by (cases "log_progress pf st (stop_after res) ps") (simp_all split: if_splits)
    then show ?thesis by (rule Cons.IH)
  qed
qed

lemma log_progress_pass_returns:
  assumes "\<not> is_inf (nearest pf (real (frames_processed p)))"
    and "\<not> is_inf (nearest pf (real_of_int (int (total_frames (video_info st))
                                             - int (frames_processed p))))"
  shows "\<exists>res. log_progress_pass pf st p = Inr res"
  using assms
  by (cases "update_ui st")
    (auto simp: log_progress_pass_def Let_def estimate_value split: sum.splits)

lemma log_progress_returns:
  assumes "\<forall>p\<in>set ps. \<not> is_inf (nearest pf (real (frames_processed p)))
             \<and> \<not> is_inf (nearest pf (real_of_int (int (total_frames (video_info st))
                                                    - int (frames_processed p))))"
  shows "\<exists>passes. log_progress pf st stop ps = Inr passes"
  using assms
proof (induction ps arbitrary: stop)
  case Nil
  show ?case by simp
next
  case (Cons p ps)
  obtain res where res: "log_progress_pass pf st p = Inr res"
    using log_progress_pass_returns [of pf p st] Cons.prems by auto
  obtain passes where "log_progress pf st (stop_after res) ps = Inr passes"
    using Cons.IH [of "stop_after res"] Cons.prems by auto
  with res show ?case by simp
qed

lemma log_progress_pass_value:
  "log_progress_pass pf st p =
     (case update_ui st of
        None \<Rightarrow> Inr \<lparr>stop_after = total_frames (video_info st) \<le> frames_processed p,
                      bar_n = frames_processed p,
                      bar_postfix = (if video_reader st = ''FFmpeg + OpenGL (Windows)''
                                     then [(''OpenGL'', opengl_size p)] else [])
                                    @ [(''YOLO'', yolo_size p), (''Analysis'', analysis_size p)],
                      sent = None, logged = None\<rparr>
      | Some sink \<Rightarrow>
          (case estimate (nearest pf) (total_frames (video_info st)) (frames_processed p)
                  (nearest pf (time_now p - start_time (analyze_task st))) of
             Inl e \<Rightarrow> Inl e
           | Inr (rate, eta) \<Rightarrow>
              (case eta_string pf eta of
                 Inl e \<Rightarrow>
                   Inr \<lparr>stop_after = total_frames (video_info st) \<le> frames_processed p,
                        bar_n = frames_processed p,
                        bar_postfix = (if video_reader st = ''FFmpeg + OpenGL (Windows)''
                                       then [(''OpenGL'', opengl_size p)] else [])
                                      @ [(''YOLO'', yolo_size p), (''Analysis'', analysis_size p)],
                        sent = None, logged = Some e\<rparr>
               | Inr text \<Rightarrow>
                   Inr \<lparr>stop_after = total_frames (video_info st) \<le> frames_processed p,
                        bar_n = frames_processed p,
                        bar_postfix = (if video_reader st = ''FFmpeg + OpenGL (Windows)''
                                       then [(''OpenGL'', opengl_size p)] else [])
                                      @ [(''YOLO'', yolo_size p), (''Analysis'', analysis_size p)],
                        sent = Some \<lparr>pm_process = ''OBJECT_DETECTION'',
                                     pm_frames_processed = frames_processed p,
                                     pm_total_frames = total_frames (video_info st),
                                     pm_eta = text\<rparr>,
                        logged = sink \<lparr>pm_process = ''OBJECT_DETECTION'',
                                       pm_frames_processed = frames_processed p,
                                       pm_total_frames = total_frames (video_info st),
                                       pm_eta = text\<rparr>\<rparr>)))"
  by (simp add: log_progress_pass_def Let_def split: option.splits sum.splits prod.splits)

text \<open>
  C7. In every pass of the monitor, with the arithmetic of Python's floats: the
  processing rate is the quotient of the number of completed frames by the elapsed
  time, rounded, when the elapsed time is positive and zero otherwise; the estimate
  is the quotient of the remaining frames by the rate, rounded, when the rate is
  positive and \<^verbatim>\<open>float('inf')\<close> otherwise; the text of the estimate is
  \<^verbatim>\<open>"Calculating..."\<close> when the rate is not positive, and also when the rounded
  quotient is \<^verbatim>\<open>float('inf')\<close>, and the formatted time otherwise. No division raises
  \<^verbatim>\<open>ZeroDivisionError\<close>, in the estimate, in a pass, in the whole loop: the one error
  that leaves them is the \<^verbatim>\<open>OverflowError\<close> of the conversion of a frame count beyond
  the range of the doubles, and with counts within that range the loop returns.
  When there is a sink, the message of a pass carries the text of this estimate;
  when formatting the time raises, no message is sent and the error is logged.
\<close>

theorem monitor_rate_and_eta:
  "(let completed = nearest pf (real n);
        remaining = nearest pf (real_of_int (int m - int n));
        rate = (if positive elapsed then quotient (nearest pf) completed elapsed else Finite 0);
        eta = (if positive rate then quotient (nearest pf) remaining rate else PosInf)
    in estimate (nearest pf) m n elapsed
         = (if (positive elapsed \<and> is_inf completed) \<or> (positive rate \<and> is_inf remaining)
            then Inl OverflowError else Inr (rate, eta))
       \<and> eta_string pf eta
           = (if positive rate \<and> eta \<noteq> PosInf then strftime_gmtime pf eta
              else Inr ''Calculating...''))
   \<and> estimate (nearest pf) m n elapsed \<noteq> Inl ZeroDivisionError
   \<and> (case log_progress_pass pf st p of
         Inl e \<Rightarrow>
           e = OverflowError
           \<and> estimate (nearest pf) (total_frames (video_info st)) (frames_processed p)
                (nearest pf (time_now p - start_time (analyze_task st))) = Inl e
       | Inr res \<Rightarrow>
          (case update_ui st of
             None \<Rightarrow> sent res = None \<and> logged res = None
           | Some sink \<Rightarrow>
              (case estimate (nearest pf) (total_frames (video_info st)) (frames_processed p)
                      (nearest pf (time_now p - start_time (analyze_task st))) of
                 Inl e \<Rightarrow> False
               | Inr (rate, eta) \<Rightarrow>
                  (case eta_string pf eta of
                     Inl e \<Rightarrow> sent res = None \<and> logged res = Some e
                   | Inr text \<Rightarrow>
                       map_option pm_eta (sent res) = Some text
                       \<and> map_option sink (sent res) = Some (logged res)))))
   \<and> (case log_progress pf st stop ps of Inl e \<Rightarrow> e = OverflowError | Inr passes \<Rightarrow> True)
   \<and> ((\<forall>p\<in>set ps. \<not> is_inf (nearest pf (real (frames_processed p)))
          \<and> \<not> is_inf (nearest pf (real_of_int (int (total_frames (video_info st))
                                                 - int (frames_processed p)))))
        \<longrightarrow> (\<exists>passes. log_progress pf st stop ps = Inr passes))"
proof -
  have a: "(let completed = nearest pf (real n);
        remaining = nearest pf (real_of_int (int m - int n));
        rate = (if positive elapsed then quotient (nearest pf) completed elapsed else Finite 0);
        eta = (if positive rate then quotient (nearest pf) remaining rate else PosInf)
    in estimate (nearest pf) m n elapsed
         = (if (positive elapsed \<and> is_inf completed) \<or> (positive rate \<and> is_inf remaining)
            then Inl OverflowError else Inr (rate, eta))
       \<and> eta_string pf eta
           = (if positive rate \<and> eta \<noteq> PosInf then strftime_gmtime pf eta
              else Inr ''Calculating...''))"
    using estimate_value [of "nearest pf" m n elapsed]
    by (simp add: Let_def eta_string_def)
  have b: "estimate (nearest pf) m n elapsed \<noteq> Inl ZeroDivisionError"
    using estimate_error [of "nearest pf" m n elapsed ZeroDivisionError] by auto
  have c: "(case log_progress_pass pf st p of
         Inl e \<Rightarrow>
           e = OverflowError
           \<and> estimate (nearest pf) (total_frames (video_info st)) (frames_processed p)
                (nearest pf (time_now p - start_time (analyze_task st))) = Inl e
       | Inr res \<Rightarrow>
          (case update_ui st of
             None \<Rightarrow> sent res = None \<and> logged res = None
           | Some sink \<Rightarrow>
              (case estimate (nearest pf) (total_frames (video_info st)) (frames_processed p)
                      (nearest pf (time_now p - start_time (analyze_task st))) of
                 Inl e \<Rightarrow> False
               | Inr (rate, eta) \<Rightarrow>
                  (case eta_string pf eta of
                     Inl e \<Rightarrow> sent res = None \<and> logged res = Some e
                   | Inr text \<Rightarrow>
                       map_option pm_eta (sent res) = Some text
                       \<and> map_option sink (sent res) = Some (logged res)))))"
    by (auto simp: log_progress_pass_value dest: estimate_error
        split: option.splits sum.splits prod.splits)
  have d: "(case log_progress pf st stop ps of Inl e \<Rightarrow> e = OverflowError | Inr passes \<Rightarrow> True)"
    using log_progress_error [of pf st stop ps] by (simp split: sum.splits)
  have e: "(\<forall>p\<in>set ps. \<not> is_inf (nearest pf (real (frames_processed p)))
          \<and> \<not> is_inf (nearest pf (real_of_int (int (total_frames (video_info st))
                                                 - int (frames_processed p)))))
        \<longrightarrow> (\<exists>passes. log_progress pf st stop ps = Inr passes)"
    using log_progress_returns [of ps pf st stop] by blast
  from a b c d e show ?thesis
    by blast
qed

text \<open>
  C7 at two passes on the one-frame video, two and four seconds after the start:
  the first, with no frame completed, has the rate zero and sends
  \<^verbatim>\<open>"Calculating..."\<close>; the second, with the frame completed, has the rate one quarter
  and no frame remaining, sends the formatted time and sets the stop event.
\<close>

theorem monitor_rate_and_eta_witness:
  "estimate (nearest wide_platform) 1 0 (Finite 2) = Inr (Finite 0, PosInf)
   \<and> estimate (nearest wide_platform) 1 1 (Finite 4) = Inr (Finite (1 / 4), Finite 0)
   \<and> (\<exists>passes. log_progress wide_platform (app0 ''FFmpeg'' (Some (\<lambda>msg. None))) False
                  [two_seconds_in, four_seconds_in] = Inr passes)
   \<and> map_sum id (map (\<lambda>res. (map_option pm_eta (sent res), stop_after res)))
        (log_progress wide_platform (app0 ''FFmpeg'' (Some (\<lambda>msg. None))) False
           [two_seconds_in, four_seconds_in])
       = Inr [(Some ''Calculating...'', False), (Some ''00:00:00'', True)]"
proof -
  let ?st = "app0 ''FFmpeg'' (Some (\<lambda>msg. None))"
  have h: "\<forall>p\<in>set [two_seconds_in, four_seconds_in].
             \<not> is_inf (nearest wide_platform (real (frames_processed p)))
             \<and> \<not> is_inf (nearest wide_platform
                    (real_of_int (int (total_frames (video_info ?st)) - int (frames_processed p))))"
    by (simp add: wide_platform_def two_seconds_in_def four_seconds_in_def example_defs)
  have e1: "estimate (nearest wide_platform) 1 0 (Finite 2) = Inr (Finite 0, PosInf)"
    by (simp add: estimate_def int_truediv_def int_to_float_def float_truediv_def
        wide_platform_def Let_def)
  have e2: "estimate (nearest wide_platform) 1 1 (Finite 4) = Inr (Finite (1 / 4), Finite 0)"
    by (simp add: estimate_def int_truediv_def int_to_float_def float_truediv_def
        wide_platform_def Let_def)
  have v: "map_sum id (map (\<lambda>res. (map_option pm_eta (sent res), stop_after res)))
        (log_progress wide_platform ?st False [two_seconds_in, four_seconds_in])
       = Inr [(Some ''Calculating...'', False), (Some ''00:00:00'', True)]"
    by (simp add: log_progress_pass_def estimate_def int_truediv_def int_to_float_def
        float_truediv_def eta_string_def wide_platform_def two_seconds_in_def
        four_seconds_in_def example_defs Let_def)
  from monitor_rate_and_eta [of wide_platform 1 0 "Finite 2" ?st two_seconds_in False
      "[two_seconds_in, four_seconds_in]"] h e1 e2 v
  show ?thesis
    by blast
qed

subsection \<open>The total of the performance report\<close>

lemma filter_hasattr_profile: "filter hasattr_profile xs = filter (\<lambda>x. x \<noteq> Sentinel) xs"
proof -
  have "hasattr_profile x = (x \<noteq> Sentinel)" for x
    by (cases x) simp_all
  then show ?thesis by presburger
qed

text \<open>
  C8, as the claim states it: the total is the number of units with a non-empty
  profile. The filter of line 168 asks for the attribute, not for what it holds:
  a results queue with one unit of empty profile and the sentinel gives the total
  1, and no unit in it has a non-empty profile.
\<close>

theorem total_counts_empty_profile:
  "map_sum id rep_total_frames
     (log_performance False (app0 ''FFmpeg'' None) [empty_unit, Sentinel]) = Inr 1
   \<and> length (filter has_nonempty_profile [empty_unit, Sentinel]) = 0"
  by (simp add: pipeline_defs example_defs empty_unit_def has_nonempty_profile_def)

text \<open>
  C8, amended: when the frame rate of the video is not zero and the clock moved
  between start and end, \<open>log_performance\<close> produces its report, and the total is
  the number of items of the results queue that are units, whatever their
  profile holds; the sentinel is never counted.
\<close>

theorem total_counts_units:
  assumes "fps (video_info st) \<noteq> 0"
    and "end_time (analyze_task st) \<noteq> start_time (analyze_task st)"
  shows "\<exists>report. log_performance sequential_mode st results_queue = Inr report
           \<and> rep_total_frames report = length (filter (\<lambda>x. x \<noteq> Sentinel) results_queue)"
  using assms by (simp add: log_performance_def truediv_def Let_def filter_hasattr_profile)

theorem total_counts_units_witness:
  "fps (video_info (app0 ''FFmpeg'' None)) \<noteq> 0
   \<and> end_time (analyze_task (app0 ''FFmpeg'' None)) \<noteq> start_time (analyze_task (app0 ''FFmpeg'' None))
   \<and> (\<exists>report. log_performance False (app0 ''FFmpeg'' None) [empty_unit, Sentinel, unit1] = Inr report
         \<and> rep_total_frames report = 2)"
proof -
  have a: "fps (video_info (app0 ''FFmpeg'' None)) \<noteq> 0"
    by (simp add: example_defs)
  have b: "end_time (analyze_task (app0 ''FFmpeg'' None)) \<noteq> start_time (analyze_task (app0 ''FFmpeg'' None))"
    by (simp add: example_defs)
  have "length (filter (\<lambda>x. x \<noteq> Sentinel) [empty_unit, Sentinel, unit1]) = 2"
    by (simp add: example_defs empty_unit_def)
  with total_counts_units [OF a b, of False "[empty_unit, Sentinel, unit1]"] a b
  show ?thesis by simp
qed

subsection \<open>Sequencing\<close>

text \<open>How \<open>then_do\<close> passes a run on, and how a property of the run goes through it.\<close>

lemma then_do_simps [simp]:
  "then_do (Next, r) f = f r"
  "then_do (Raise e, r) f = (Raise e, r)"
  "then_do (Block, r) f = (Block, r)"
  by (simp_all add: then_do_def)

lemma then_do_snd:
  assumes "P (snd s)" and "\<And>r. P r \<Longrightarrow> P (snd (f r))"
  shows "P (snd (then_do s f))"
proof (cases s)
  case (Pair st r)
  with assms show ?thesis by (cases st) auto
qed

lemma then_do_Next:
  "then_do s f = (Next, r') \<longleftrightarrow> (\<exists>r. s = (Next, r) \<and> f r = (Next, r'))"
proof (cases s)
  case (Pair st r)
  then show ?thesis by (cases st) auto
qed

lemma then_do_Raise:
  "then_do s f = (Raise e, r') \<longleftrightarrow> s = (Raise e, r') \<or> (\<exists>r. s = (Next, r) \<and> f r = (Raise e, r'))"
proof (cases s)
  case (Pair st r)
  then show ?thesis by (cases st) auto
qed

lemma emit_nil [simp]: "emit [] r = r"
  by (simp add: emit_def)

lemma emit_emit [simp]: "emit es (emit es' r) = emit (es' @ es) r"
  by (simp add: emit_def)

text \<open>
  The constructors of the workers in closed form: the workers built are those
  before the first whose constructor raises, and that first error is raised.
\<close>

lemma create_all_eq:
  "create_all w ts r =
     (case List.map_filter (make_worker w) ts of [] \<Rightarrow> Next | e # es \<Rightarrow> Raise e,
      emit (map Create (takeWhile (\<lambda>t. make_worker w t = None) ts)) r)"
  by (induction ts arbitrary: r) (auto simp: List.map_filter_simps split: option.splits)

lemmas prepare_defs = prepare_def start_monitor_thread_def create_all_eq then_do_def

subsection \<open>The application state through the steps\<close>

text \<open>
  After the preparation only \<open>finish\<close> writes to the application state, and only to
  the task: the reader preference stays what the preparation left.
\<close>

lemma emit_state [simp]: "state (emit es r) = state r"
  "threads (emit es r) = threads r" "started (emit es r) = started r"
  "finished (emit es r) = finished r" "queues (emit es r) = queues r"
  "log_thread_stop_event (emit es r) = log_thread_stop_event r"
  "events (emit es r) = events r @ es"
  by (simp_all add: emit_def)

lemma start_state [simp]: "state (snd (start w t r)) = state r"
  by (simp add: start_def split: option.splits)

lemma join_state [simp]: "state (snd (join w t r)) = state r"
  by (simp add: join_def)

lemma run_thread_state [simp]: "state (snd (run_thread w t q r)) = state r"
  unfolding run_thread_def
  by (rule then_do_snd [where P = "\<lambda>x. state x = state r"], rule then_do_snd [where P = "\<lambda>x. state x = state r"]) simp_all

lemma run_sequential_state [simp]: "state (snd (run_sequential w r)) = state r"
  unfolding run_sequential_def
  by (intro then_do_snd [where P = "\<lambda>x. state x = state r"]) simp_all

lemma start_all_state [simp]: "state (snd (start_all w ts r)) = state r"
proof (induction ts arbitrary: r)
  case Nil
  show ?case by simp
next
  case (Cons t ts)
  show ?case
    by (simp, rule then_do_snd [where P = "\<lambda>x. state x = state r"]) (simp_all add: Cons.IH)
qed

lemma join_all_state [simp]: "state (snd (join_all w ts r)) = state r"
proof (induction ts arbitrary: r)
  case Nil
  show ?case by simp
next
  case (Cons t ts)
  show ?case
    by (simp, rule then_do_snd [where P = "\<lambda>x. state x = state r"]) (simp_all add: Cons.IH)
qed

lemma check_all_state [simp]: "state (snd (check_all w ts r)) = state r"
  by (induction ts arbitrary: r) (simp_all split: option.splits)

lemma run_concurrent_state [simp]: "state (snd (run_concurrent w r)) = state r"
  unfolding run_concurrent_def Let_def
  by (intro then_do_snd [where P = "\<lambda>x. state x = state r"]) simp_all

lemma finish_reader [simp]: "video_reader (state (snd (finish w r))) = video_reader (state r)"
  by (simp add: finish_def Let_def split: sum.splits option.splits)

lemma handler_state [simp]: "state (handler w e r) = state r"
  by (simp add: handler_def)

lemma try_body_reader:
  "video_reader (state (snd (try_body w r))) = video_reader (state (snd (prepare w r)))"
  unfolding try_body_def
  by (intro then_do_snd [where P = "\<lambda>x. video_reader (state x) = video_reader (state (snd (prepare w r)))"]) simp_all

lemma analyze_video_reader:
  "video_reader (state (snd (analyze_video w st))) = video_reader (state (snd (prepare w (new_run st))))"
proof (cases "try_body w (new_run st)")
  case (Pair s r)
  with try_body_reader [of w "new_run st"] show ?thesis
    by (cases s) (simp_all add: analyze_video_def)
qed

lemma disable_opengl_reader:
  "video_reader (snd (disable_opengl st)) =
     (if video_reader st = ''FFmpeg + OpenGL (Windows)'' \<and> (\<not> is_vr (video_info st) \<or> is_fisheye (video_info st))
      then ''FFmpeg'' else video_reader st)"
  by (simp add: disable_opengl_def Let_def)

lemma prepare_reader:
  "check_create_output_folder w (video_path st) = None \<Longrightarrow>
   set_video_info w (video_path st) = Inr info \<Longrightarrow>
   video_reader (state (snd (prepare w (new_run st)))) = video_reader (snd (disable_opengl (st\<lparr>video_info := info\<rparr>)))"
  by (simp add: prepare_defs new_run_def Let_def split: option.splits prod.splits list.splits)

subsection \<open>Stored errors in sequential mode\<close>

text \<open>No step of sequential mode reads what a worker stored.\<close>

lemma start_stored [simp]: "start (w\<lparr>stored_exception := x\<rparr>) = start w"
  by (intro ext) (simp add: start_def)

lemma join_stored [simp]: "join (w\<lparr>stored_exception := x\<rparr>) = join w"
  by (intro ext) (simp add: join_def)

lemma run_thread_stored [simp]: "run_thread (w\<lparr>stored_exception := x\<rparr>) = run_thread w"
  by (intro ext) (simp add: run_thread_def)

lemma run_sequential_stored [simp]: "run_sequential (w\<lparr>stored_exception := x\<rparr>) = run_sequential w"
  by (intro ext) (simp add: run_sequential_def cong: if_cong)

lemma prepare_stored [simp]: "prepare (w\<lparr>stored_exception := x\<rparr>) = prepare w"
  by (intro ext) (simp add: prepare_defs Let_def split: option.splits sum.splits prod.splits list.splits)

lemma finish_stored [simp]: "finish (w\<lparr>stored_exception := x\<rparr>) = finish w"
  by (intro ext) (simp add: finish_def Let_def split: option.splits sum.splits)

lemma is_alive_stored [simp]: "is_alive (w\<lparr>stored_exception := x\<rparr>) = is_alive w"
  by (intro ext) (simp add: is_alive_def)

lemma handler_stored [simp]: "handler (w\<lparr>stored_exception := x\<rparr>) = handler w"
  by (intro ext) (simp add: handler_def)

lemma try_body_stored:
  "SEQUENTIAL_MODE w \<Longrightarrow> try_body (w\<lparr>stored_exception := x\<rparr>) r = try_body w r"
  by (simp add: try_body_def)

lemma analyze_video_stored:
  "SEQUENTIAL_MODE w \<Longrightarrow> analyze_video (w\<lparr>stored_exception := x\<rparr>) st = analyze_video w st"
  by (simp add: analyze_video_def try_body_stored split: prod.splits status.splits)

subsection \<open>The events a step adds\<close>

text \<open>
  A step leaves the events of a kind as they are when none of the events it may
  add is of that kind.
\<close>

lemma start_filter: "\<not> P (Start t) \<Longrightarrow> filter P (events (snd (start w t r))) = filter P (events r)"
  by (simp add: start_def split: option.splits)

lemma join_filter: "\<not> P (Join t None) \<Longrightarrow> filter P (events (snd (join w t r))) = filter P (events r)"
  by (simp add: join_def)

lemma run_thread_filter:
  assumes "\<not> P (Start t)" "\<not> P (Join t None)" "\<not> P (Put q Sentinel)"
  shows "filter P (events (snd (run_thread w t q r))) = filter P (events r)"
  unfolding run_thread_def
  by (intro then_do_snd [where P = "\<lambda>x. filter P (events x) = filter P (events r)"])
    (simp_all add: assms start_filter join_filter)

lemma run_sequential_filter:
  assumes "\<And>t. t \<in> set (workers (use_open_gl (state r))) \<Longrightarrow> \<not> P (Start t) \<and> \<not> P (Join t None)"
    and "\<And>q. \<not> P (Put q Sentinel)"
  shows "filter P (events (snd (run_sequential w r))) = filter P (events r)"
proof -
  let ?I = "\<lambda>x::run. filter P (events x) = filter P (events r) \<and> state x = state r"
  have "?I (snd (run_sequential w r))"
    unfolding run_sequential_def
  proof (intro then_do_snd [where P = ?I])
    show "?I (snd (run_thread w VIDEO Opengl_q r))"
      using assms by (simp add: run_thread_filter workers_def)
  next
    fix x assume "?I x"
    then show "?I (snd (if use_open_gl (state x) then run_thread w OPENGL Yolo_q x else (Next, x)))"
      using assms by (simp add: run_thread_filter workers_def)
  next
    fix x assume "?I x"
    then show "?I (snd (run_thread w YOLO Analysis_q x))"
      using assms by (simp add: run_thread_filter workers_def)
  next
    fix x assume "?I x"
    then show "?I (snd (run_thread w YOLO_ANALYSIS Result_q x))"
      using assms by (simp add: run_thread_filter workers_def)
  qed
  then show ?thesis by simp
qed

lemma start_all_filter:
  "(\<And>t. t \<in> set ts \<Longrightarrow> \<not> P (Start t)) \<Longrightarrow>
     filter P (events (snd (start_all w ts r))) = filter P (events r)"
proof (induction ts arbitrary: r)
  case Nil
  show ?case by simp
next
  case (Cons t ts)
  show ?case
    by (simp, rule then_do_snd [where P = "\<lambda>x. filter P (events x) = filter P (events r)"])
      (simp_all add: Cons start_filter)
qed

lemma join_all_filter:
  "(\<And>t. t \<in> set ts \<Longrightarrow> \<not> P (Join t None)) \<Longrightarrow>
     filter P (events (snd (join_all w ts r))) = filter P (events r)"
proof (induction ts arbitrary: r)
  case Nil
  show ?case by simp
next
  case (Cons t ts)
  show ?case
    by (simp, rule then_do_snd [where P = "\<lambda>x. filter P (events x) = filter P (events r)"])
      (simp_all add: Cons join_filter)
qed

lemma prepare_filter:
  assumes "\<not> P StartMonitor" and "\<And>t. \<not> P (Create t)" and "\<And>m. \<not> P (Warn m)"
  shows "filter P (events (snd (prepare w r))) = filter P (events r)"
proof -
  have "filter P (fst (disable_opengl st)) = []" for st
    using assms by (simp add: disable_opengl_def Let_def)
  then show ?thesis
    using assms by (simp add: prepare_defs Let_def split: option.splits sum.splits prod.splits list.splits) (metis fst_conv)
qed

lemma finish_filter:
  assumes "\<not> P SetStop" and "\<And>x. \<not> P (LogPerformance x)" and "\<And>m. \<not> P (UpdateUI m)"
  shows "filter P (events (snd (finish w r))) = filter P (events r)"
  using assms by (simp add: finish_def Let_def split: option.splits sum.splits)

lemma handler_filter:
  assumes "\<not> P SetStop" and "\<not> P (LogError e)" and "\<And>t. t \<in> set (threads r) \<Longrightarrow> \<not> P (Join t (Some 1))"
  shows "filter P (events (handler w e r)) = filter P (events r)"
  using assms by (simp add: handler_def filter_empty_conv)

lemma sequential_no_check:
  assumes "SEQUENTIAL_MODE w"
  shows "filter is_check (events (snd (analyze_video w st))) = []"
proof -
  let ?I = "\<lambda>x::run. filter is_check (events x) = []"
  have body: "?I (snd (try_body w (new_run st)))"
    unfolding try_body_def using assms
    by (intro then_do_snd [where P = ?I])
      (simp_all add: prepare_filter run_sequential_filter finish_filter, simp add: new_run_def)
  show ?thesis
  proof (cases "try_body w (new_run st)")
    case (Pair s r)
    with body show ?thesis
      by (cases s) (simp_all add: analyze_video_def handler_filter)
  qed
qed

subsection \<open>The list \<^verbatim>\<open>threads\<close>\<close>

text \<open>Only the concurrent branch assigns it (line 81).\<close>

lemma start_threads [simp]: "threads (snd (start w t r)) = threads r"
  by (simp add: start_def split: option.splits)

lemma join_threads [simp]: "threads (snd (join w t r)) = threads r"
  by (simp add: join_def)

lemma run_thread_threads [simp]: "threads (snd (run_thread w t q r)) = threads r"
  unfolding run_thread_def
  by (intro then_do_snd [where P = "\<lambda>x. threads x = threads r"]) simp_all

lemma run_sequential_threads [simp]: "threads (snd (run_sequential w r)) = threads r"
  unfolding run_sequential_def
  by (intro then_do_snd [where P = "\<lambda>x. threads x = threads r"]) simp_all

lemma start_all_threads [simp]: "threads (snd (start_all w ts r)) = threads r"
proof (induction ts arbitrary: r)
  case Nil
  show ?case by simp
next
  case (Cons t ts)
  show ?case
    by (simp, rule then_do_snd [where P = "\<lambda>x. threads x = threads r"]) (simp_all add: Cons.IH)
qed

lemma join_all_threads [simp]: "threads (snd (join_all w ts r)) = threads r"
proof (induction ts arbitrary: r)
  case Nil
  show ?case by simp
next
  case (Cons t ts)
  show ?case
    by (simp, rule then_do_snd [where P = "\<lambda>x. threads x = threads r"]) (simp_all add: Cons.IH)
qed

lemma check_all_threads [simp]: "threads (snd (check_all w ts r)) = threads r"
  by (induction ts arbitrary: r) (simp_all split: option.splits)

lemma run_concurrent_threads [simp]:
  "threads (snd (run_concurrent w r)) = workers (use_open_gl (state r))"
  unfolding run_concurrent_def Let_def
  by (intro then_do_snd [where P = "\<lambda>x. threads x = workers (use_open_gl (state r))"]) simp_all

lemma prepare_threads [simp]: "threads (snd (prepare w r)) = threads r"
  by (simp add: prepare_defs Let_def split: option.splits sum.splits prod.splits list.splits)

lemma finish_threads [simp]: "threads (snd (finish w r)) = threads r"
  by (simp add: finish_def Let_def split: option.splits sum.splits)

subsection \<open>Workers the handler can find\<close>

text \<open>
  Whenever the body of the \<^verbatim>\<open>try\<close> ends without blocking, the run is settled: in
  sequential mode every started worker was joined, in concurrent mode every
  started worker is in \<^verbatim>\<open>threads\<close>.
\<close>

lemma then_do_unblocked:
  assumes "fst s \<noteq> Block \<Longrightarrow> P (snd s)"
    and "\<And>r. P r \<Longrightarrow> fst (f r) \<noteq> Block \<Longrightarrow> P (snd (f r))"
    and "fst (then_do s f) \<noteq> Block"
  shows "P (snd (then_do s f))"
proof (cases s)
  case (Pair st r)
  with assms show ?thesis by (cases st) auto
qed

lemma run_thread_settled:
  "settled r \<Longrightarrow> fst (run_thread w t q r) \<noteq> Block \<Longrightarrow> settled (snd (run_thread w t q r))"
  by (auto simp: run_thread_def start_def join_def settled_def split: option.splits if_splits)

lemma run_sequential_settled:
  assumes "settled r" and "fst (run_sequential w r) \<noteq> Block"
  shows "settled (snd (run_sequential w r))"
  using assms(2) unfolding run_sequential_def
  by (intro then_do_unblocked [where P = settled])
    (auto simp: run_thread_settled assms(1) split: if_splits)

lemma start_settled:
  "settled r \<Longrightarrow> t \<in> set (threads r) \<Longrightarrow> settled (snd (start w t r))"
  by (auto simp: start_def settled_def split: option.splits)

lemma join_settled: "settled r \<Longrightarrow> settled (snd (join w t r))"
  by (auto simp: join_def settled_def)

lemma start_all_settled:
  "settled r \<Longrightarrow> set ts \<subseteq> set (threads r) \<Longrightarrow> settled (snd (start_all w ts r))"
proof (induction ts arbitrary: r)
  case Nil
  then show ?case by simp
next
  case (Cons t ts)
  let ?I = "\<lambda>x. settled x \<and> threads x = threads r"
  have "?I (snd (then_do (start w t r) (start_all w ts)))"
    using Cons by (intro then_do_snd [where P = ?I]) (simp_all add: start_settled)
  then show ?case by simp
qed

lemma join_all_settled: "settled r \<Longrightarrow> settled (snd (join_all w ts r))"
proof (induction ts arbitrary: r)
  case Nil
  then show ?case by simp
next
  case (Cons t ts)
  then show ?case
    by (simp, intro then_do_snd [where P = settled]) (simp_all add: join_settled)
qed

lemma settled_emit [simp]: "settled (emit es r) = settled r"
  by (simp add: settled_def)

lemma check_all_settled: "settled r \<Longrightarrow> settled (snd (check_all w ts r))"
  by (induction ts arbitrary: r) (simp_all split: option.splits)

lemma run_concurrent_settled: "started r = [] \<Longrightarrow> settled (snd (run_concurrent w r))"
  unfolding run_concurrent_def Let_def
  by (intro then_do_snd [where P = settled] start_all_settled join_all_settled check_all_settled)
    (simp_all add: settled_def)

lemma prepare_settled: "settled (snd (prepare w (new_run st))) \<and> started (snd (prepare w (new_run st))) = []"
  by (simp add: prepare_defs settled_def new_run_def Let_def split: option.splits sum.splits prod.splits list.splits)

lemma finish_settled: "settled r \<Longrightarrow> settled (snd (finish w r))"
  by (simp add: finish_def settled_def Let_def split: option.splits sum.splits)

lemma try_body_settled:
  assumes "fst (try_body w (new_run st)) \<noteq> Block"
  shows "settled (snd (try_body w (new_run st)))"
proof -
  let ?mode = "if SEQUENTIAL_MODE w then run_sequential w else run_concurrent w"
  obtain s0 r0 where p: "prepare w (new_run st) = (s0, r0)"
    by fastforce
  have r0: "settled r0" "started r0 = []"
    using prepare_settled [of w st] p by simp_all
  show ?thesis
  proof (cases s0)
    case Next
    obtain s1 r1 where m: "?mode r0 = (s1, r1)"
      by fastforce
    have r1: "settled r1" if "s1 \<noteq> Block"
      using that m r0 run_sequential_settled [of r0 w] run_concurrent_settled [of r0 w]
      by (auto split: if_splits)
    show ?thesis
    proof (cases s1)
      case Next
      with \<open>s0 = Next\<close> p m r1 show ?thesis
        by (simp add: try_body_def finish_settled)
    next
      case (Raise e)
      with \<open>s0 = Next\<close> p m r1 show ?thesis
        by (simp add: try_body_def)
    next
      case Block
      with \<open>s0 = Next\<close> p m assms show ?thesis
        by (simp add: try_body_def)
    qed
  next
    case (Raise e)
    with p r0 show ?thesis
      by (simp add: try_body_def)
  next
    case Block
    with p assms show ?thesis
      by (simp add: try_body_def)
  qed
qed

lemma handler_joins:
  assumes "try_body w (new_run st) = (Raise e, r)"
  shows "analyze_video w st = (Raised e, handler w e r)"
    and "log_thread_stop_event (handler w e r)"
    and "events (handler w e r) = events r @ [LogError e, SetStop]
           @ map (\<lambda>t. Join t (Some 1)) (filter (is_alive w r) (threads r))"
    and "set (filter (is_alive w r) (threads r)) = {t. is_alive w r t}"
proof -
  show "analyze_video w st = (Raised e, handler w e r)"
    using assms by (simp add: analyze_video_def)
  show "log_thread_stop_event (handler w e r)"
    by (simp add: handler_def)
  show "events (handler w e r) = events r @ [LogError e, SetStop]
           @ map (\<lambda>t. Join t (Some 1)) (filter (is_alive w r) (threads r))"
    by (simp add: handler_def)
  have "settled r"
    using try_body_settled [of w st] assms by simp
  then show "set (filter (is_alive w r) (threads r)) = {t. is_alive w r t}"
    by (auto simp: settled_def is_alive_def)
qed

subsection \<open>What makes the preparation and the start-up raise\<close>

lemma prepare_folder_error:
  "check_create_output_folder w (video_path st) = Some e \<Longrightarrow>
     prepare w (new_run st) = (Raise e, new_run st)"
  by (simp add: prepare_def new_run_def)

lemma prepare_probe_error:
  "check_create_output_folder w (video_path st) = None \<Longrightarrow>
   set_video_info w (video_path st) = Inl e \<Longrightarrow>
     prepare w (new_run st) = (Raise e, new_run st)"
  by (simp add: prepare_def new_run_def)

lemma prepare_queue_error:
  "check_create_output_folder w (video_path st) = None \<Longrightarrow>
   set_video_info w (video_path st) = Inr info \<Longrightarrow>
   make_queues w = Some e \<Longrightarrow>
     fst (prepare w (new_run st)) = Raise e"
  by (simp add: prepare_def new_run_def Let_def split: prod.splits)

lemma use_open_gl_disable:
  "use_open_gl (snd (disable_opengl (st\<lparr>video_info := info\<rparr>))) = conversion st info"
  by (auto simp: use_open_gl_def disable_opengl_def conversion_def Let_def)

lemma create_all_ok:
  "\<forall>t\<in>set ts. make_worker w t = None \<Longrightarrow> create_all w ts r = (Next, emit (map Create ts) r)"
  by (induction ts arbitrary: r) simp_all

lemma create_all_raise:
  "\<forall>u\<in>set pre. make_worker w u = None \<Longrightarrow> make_worker w t = Some e \<Longrightarrow>
     create_all w (pre @ t # post) r = (Raise e, emit (map Create pre) r)"
  by (induction pre arbitrary: r) simp_all

lemma prepare_worker_error:
  assumes "check_create_output_folder w (video_path st) = None"
    and "set_video_info w (video_path st) = Inr info"
    and "make_queues w = None"
    and "workers (conversion st info) = pre @ t # post"
    and "\<forall>u\<in>set pre. make_worker w u = None"
    and "make_worker w t = Some e"
  shows "fst (prepare w (new_run st)) = Raise e"
  using assms(1-4) use_open_gl_disable [where st = st and info = info]
    create_all_raise [OF assms(5,6)]
  by (auto simp add: prepare_def new_run_def Let_def split: prod.splits)

lemma prepare_monitor_error:
  assumes "check_create_output_folder w (video_path st) = None"
    and "set_video_info w (video_path st) = Inr info"
    and "make_queues w = None"
    and "\<forall>u\<in>set (workers (conversion st info)). make_worker w u = None"
    and "start_monitor w = Some e"
  shows "fst (prepare w (new_run st)) = Raise e"
  using assms(1-3,5) use_open_gl_disable [where st = st and info = info]
    create_all_ok [OF assms(4)]
  by (auto simp add: prepare_def start_monitor_thread_def new_run_def Let_def split: prod.splits)

lemma prepare_Next:
  assumes "check_create_output_folder w (video_path st) = None"
    and "set_video_info w (video_path st) = Inr info"
    and "make_queues w = None"
    and "\<forall>u\<in>set (workers (conversion st info)). make_worker w u = None"
    and "start_monitor w = None"
  shows "\<exists>r. prepare w (new_run st) = (Next, r) \<and> use_open_gl (state r) = conversion st info
           \<and> threads r = [] \<and> started r = [] \<and> finished r = []
           \<and> events r = fst (disable_opengl (st\<lparr>video_info := info\<rparr>))
                 @ map Create (workers (conversion st info)) @ [StartMonitor]"
  using assms(1-3,5) use_open_gl_disable [where st = st and info = info]
    create_all_ok [OF assms(4)]
  by (auto simp add: prepare_def start_monitor_thread_def new_run_def Let_def use_open_gl_def
      emit_def split: prod.splits)

lemma start_all_raise:
  assumes "\<And>u. u \<in> set pre \<Longrightarrow> thread_start w u = None" and "thread_start w t = Some e"
  shows "fst (start_all w (pre @ t # post) r) = Raise e"
  using assms(1)
proof (induction pre arbitrary: r)
  case Nil
  show ?case using assms(2) by (simp add: start_def)
next
  case (Cons u pre)
  then show ?case by (simp add: start_def)
qed

lemma then_do_fst_Raise: "fst s = Raise e \<Longrightarrow> fst (then_do s f) = Raise e"
  by (cases s) simp

lemma run_concurrent_raise:
  assumes "workers (use_open_gl (state r)) = pre @ t # post"
    and "\<And>u. u \<in> set pre \<Longrightarrow> thread_start w u = None" and "thread_start w t = Some e"
  shows "fst (run_concurrent w r) = Raise e"
  using assms by (simp add: run_concurrent_def Let_def then_do_fst_Raise start_all_raise)

lemma run_thread_run:
  "thread_start w t = None \<Longrightarrow> finishes w t \<Longrightarrow>
     \<exists>r'. run_thread w t q r = (Next, r') \<and> state r' = state r"
  by (simp add: run_thread_def start_def join_def)

lemma run_thread_raise:
  "thread_start w t = Some e \<Longrightarrow> run_thread w t q r = (Raise e, r)"
  by (simp add: run_thread_def start_def)

lemma run_sequential_raise:
  assumes "workers (use_open_gl (state r)) = pre @ t # post"
    and "\<And>u. u \<in> set pre \<Longrightarrow> thread_start w u = None \<and> finishes w u"
    and "thread_start w t = Some e"
  shows "fst (run_sequential w r) = Raise e"
proof -
  have step: "\<exists>r'. run_thread w u q x = (Next, r') \<and> state r' = state r" if "u \<in> set pre" "state x = state r" for u q x
    using run_thread_run [of w u q x] assms(2) that by simp
  show ?thesis
  proof (cases "use_open_gl (state r)")
    case True
    then have "[VIDEO, OPENGL, YOLO, YOLO_ANALYSIS] = pre @ t # post"
      using assms(1) by (simp add: workers_def)
    then consider "pre = []" "t = VIDEO" | "pre = [VIDEO]" "t = OPENGL"
      | "pre = [VIDEO, OPENGL]" "t = YOLO" | "pre = [VIDEO, OPENGL, YOLO]" "t = YOLO_ANALYSIS"
      by (auto simp: Cons_eq_append_conv)
    then show ?thesis
    proof cases
      case 1
      then show ?thesis using assms(3) by (simp add: run_sequential_def run_thread_raise)
    next
      case 2
      obtain r1 where "run_thread w VIDEO Opengl_q r = (Next, r1)" "state r1 = state r"
        using step [of VIDEO r Opengl_q] 2 by auto
      then show ?thesis using 2 True assms(3) by (simp add: run_sequential_def run_thread_raise)
    next
      case 3
      obtain r1 where r1: "run_thread w VIDEO Opengl_q r = (Next, r1)" "state r1 = state r"
        using step [of VIDEO r Opengl_q] 3 by auto
      obtain r2 where "run_thread w OPENGL Yolo_q r1 = (Next, r2)" "state r2 = state r"
        using step [of OPENGL r1 Yolo_q] 3 r1 by auto
      with r1 show ?thesis using 3 True assms(3) by (simp add: run_sequential_def run_thread_raise)
    next
      case 4
      obtain r1 where r1: "run_thread w VIDEO Opengl_q r = (Next, r1)" "state r1 = state r"
        using step [of VIDEO r Opengl_q] 4 by auto
      obtain r2 where r2: "run_thread w OPENGL Yolo_q r1 = (Next, r2)" "state r2 = state r"
        using step [of OPENGL r1 Yolo_q] 4 r1 by auto
      obtain r3 where "run_thread w YOLO Analysis_q r2 = (Next, r3)" "state r3 = state r"
        using step [of YOLO r2 Analysis_q] 4 r2 by auto
      with r1 r2 show ?thesis using 4 True assms(3) by (simp add: run_sequential_def run_thread_raise)
    qed
  next
    case False
    then have "[VIDEO, YOLO, YOLO_ANALYSIS] = pre @ t # post"
      using assms(1) by (simp add: workers_def)
    then consider "pre = []" "t = VIDEO" | "pre = [VIDEO]" "t = YOLO"
      | "pre = [VIDEO, YOLO]" "t = YOLO_ANALYSIS"
      by (auto simp: Cons_eq_append_conv)
    then show ?thesis
    proof cases
      case 1
      then show ?thesis using assms(3) by (simp add: run_sequential_def run_thread_raise)
    next
      case 2
      obtain r1 where "run_thread w VIDEO Opengl_q r = (Next, r1)" "state r1 = state r"
        using step [of VIDEO r Opengl_q] 2 by auto
      then show ?thesis using 2 False assms(3) by (simp add: run_sequential_def run_thread_raise)
    next
      case 3
      obtain r1 where r1: "run_thread w VIDEO Opengl_q r = (Next, r1)" "state r1 = state r"
        using step [of VIDEO r Opengl_q] 3 by auto
      obtain r2 where "run_thread w YOLO Analysis_q r1 = (Next, r2)" "state r2 = state r"
        using step [of YOLO r1 Analysis_q] 3 r1 by auto
      with r1 show ?thesis using 3 False assms(3) by (simp add: run_sequential_def run_thread_raise)
    qed
  qed
qed


lemma is_alive_handler [simp]: "is_alive w (handler w' e r) = is_alive w r"
  by (intro ext) (simp add: is_alive_def handler_def)

lemma startup_raises:
  assumes "check_create_output_folder w (video_path st) = None"
    and "set_video_info w (video_path st) = Inr info"
    and "make_queues w = None"
    and "\<forall>u\<in>set (workers (conversion st info)). make_worker w u = None"
    and "start_monitor w = None"
    and "workers (conversion st info) = pre @ t # post"
    and "\<forall>u\<in>set pre. thread_start w u = None \<and> (SEQUENTIAL_MODE w \<longrightarrow> finishes w u)"
    and "thread_start w t = Some e"
  shows "fst (try_body w (new_run st)) = Raise e"
proof -
  obtain r where r: "prepare w (new_run st) = (Next, r)" "use_open_gl (state r) = conversion st info"
    using prepare_Next [OF assms(1-5)] by blast
  have "fst ((if SEQUENTIAL_MODE w then run_sequential w else run_concurrent w) r) = Raise e"
    using assms(6-8) r(2) run_sequential_raise [of r pre t post w e] run_concurrent_raise [of r pre t post w e]
    by simp
  with r(1) show ?thesis
    by (simp add: try_body_def then_do_fst_Raise)
qed

subsection \<open>The failure path\<close>

text \<open>
  C4, as the claim states it: every worker already started is joined with a bounded
  timeout. The handler skips a worker that is not alive (line 113): when the decode
  worker has ended before \<^verbatim>\<open>start()\<close> of the detection worker raises, the decode
  worker is among the started workers and the trace of the call has no join at all.
\<close>

theorem started_worker_not_joined:
  "fst (analyze_video (stuck_world False) (app0 ''FFmpeg'' None)) = Raised (Exception ''start'')
   \<and> started (snd (analyze_video (stuck_world False) (app0 ''FFmpeg'' None))) = [VIDEO]
   \<and> events (snd (analyze_video (stuck_world False) (app0 ''FFmpeg'' None)))
       = [Create VIDEO, Create YOLO, Create YOLO_ANALYSIS, StartMonitor, Start VIDEO,
          LogError (Exception ''start''), SetStop]"
  by (simp add: pipeline_defs example_defs stuck_world_def)

text \<open>
  C4, amended. When the output folder check, the probe, the construction of the
  queues, the constructor of a worker (those of the workers before it having
  returned), the start of the monitor thread, or \<^verbatim>\<open>start()\<close> of a worker (in
  sequential mode the workers before it having ended) raises \<open>e\<close>,
  \<open>analyze_video\<close> raises that same \<open>e\<close> and
  returns nothing; the stop event of the monitor is set; after the error is logged
  and the stop event set, the only joins are joins with a timeout of one second, and
  the workers joined so are exactly the workers that were started and are still
  alive. A worker that has ended is not joined again.
\<close>

theorem failure_path:
  assumes "check_create_output_folder w (video_path st) = Some e
     \<or> (check_create_output_folder w (video_path st) = None
          \<and> set_video_info w (video_path st) = Inl e)
     \<or> (check_create_output_folder w (video_path st) = None
          \<and> set_video_info w (video_path st) = Inr info \<and> make_queues w = Some e)
     \<or> (check_create_output_folder w (video_path st) = None
          \<and> set_video_info w (video_path st) = Inr info \<and> make_queues w = None
          \<and> workers (conversion st info) = built @ c # rest
          \<and> (\<forall>u\<in>set built. make_worker w u = None)
          \<and> make_worker w c = Some e)
     \<or> (check_create_output_folder w (video_path st) = None
          \<and> set_video_info w (video_path st) = Inr info \<and> make_queues w = None
          \<and> (\<forall>u\<in>set (workers (conversion st info)). make_worker w u = None)
          \<and> start_monitor w = Some e)
     \<or> (check_create_output_folder w (video_path st) = None
          \<and> set_video_info w (video_path st) = Inr info \<and> make_queues w = None
          \<and> (\<forall>u\<in>set (workers (conversion st info)). make_worker w u = None)
          \<and> start_monitor w = None
          \<and> workers (conversion st info) = pre @ t # post
          \<and> (\<forall>u\<in>set pre. thread_start w u = None \<and> (SEQUENTIAL_MODE w \<longrightarrow> finishes w u))
          \<and> thread_start w t = Some e)"
  shows "fst (analyze_video w st) = Raised e
     \<and> log_thread_stop_event (snd (analyze_video w st))
     \<and> (\<exists>before joined.
           events (snd (analyze_video w st))
             = before @ [LogError e, SetStop] @ map (\<lambda>u. Join u (Some 1)) joined
           \<and> set joined = {u. is_alive w (snd (analyze_video w st)) u})"
proof -
  have "fst (try_body w (new_run st)) = Raise e"
    using assms
  proof (elim disjE conjE)
    assume "check_create_output_folder w (video_path st) = Some e"
    then show ?thesis
      by (simp add: try_body_def prepare_folder_error)
  next
    assume "check_create_output_folder w (video_path st) = None"
      "set_video_info w (video_path st) = Inl e"
    then show ?thesis
      by (simp add: try_body_def prepare_probe_error)
  next
    assume "check_create_output_folder w (video_path st) = None"
      "set_video_info w (video_path st) = Inr info" "make_queues w = Some e"
    then show ?thesis
      by (simp add: try_body_def then_do_fst_Raise prepare_queue_error)
  next
    assume "check_create_output_folder w (video_path st) = None"
      "set_video_info w (video_path st) = Inr info" "make_queues w = None"
      "workers (conversion st info) = built @ c # rest"
      "\<forall>u\<in>set built. make_worker w u = None" "make_worker w c = Some e"
    then have "fst (prepare w (new_run st)) = Raise e"
      by (rule prepare_worker_error)
    then show ?thesis
      by (simp add: try_body_def then_do_fst_Raise)
  next
    assume "check_create_output_folder w (video_path st) = None"
      "set_video_info w (video_path st) = Inr info" "make_queues w = None"
      "\<forall>u\<in>set (workers (conversion st info)). make_worker w u = None"
      "start_monitor w = Some e"
    then have "fst (prepare w (new_run st)) = Raise e"
      by (rule prepare_monitor_error)
    then show ?thesis
      by (simp add: try_body_def then_do_fst_Raise)
  next
    assume "check_create_output_folder w (video_path st) = None"
      "set_video_info w (video_path st) = Inr info" "make_queues w = None"
      "\<forall>u\<in>set (workers (conversion st info)). make_worker w u = None"
      "start_monitor w = None"
      "workers (conversion st info) = pre @ t # post"
      "\<forall>u\<in>set pre. thread_start w u = None \<and> (SEQUENTIAL_MODE w \<longrightarrow> finishes w u)"
      "thread_start w t = Some e"
    then show ?thesis
      by (rule startup_raises)
  qed
  then obtain r where r: "try_body w (new_run st) = (Raise e, r)"
    by (cases "try_body w (new_run st)") simp
  note h = handler_joins [OF r]
  have "fst (analyze_video w st) = Raised e" and snd: "snd (analyze_video w st) = handler w e r"
    by (simp_all add: h(1))
  moreover have "log_thread_stop_event (snd (analyze_video w st))"
    by (simp only: snd h(2))
  moreover have "\<exists>before joined.
           events (snd (analyze_video w st))
             = before @ [LogError e, SetStop] @ map (\<lambda>u. Join u (Some 1)) joined
           \<and> set joined = {u. is_alive w (snd (analyze_video w st)) u}"
  proof (intro exI conjI)
    show "events (snd (analyze_video w st))
        = events r @ [LogError e, SetStop] @ map (\<lambda>u. Join u (Some 1)) (filter (is_alive w r) (threads r))"
      by (simp only: snd h(3))
    show "set (filter (is_alive w r) (threads r)) = {u. is_alive w (snd (analyze_video w st)) u}"
      by (simp only: snd h(4) is_alive_handler)
  qed
  ultimately show ?thesis by blast
qed


text \<open>
  The amended C4 at a concurrent run on a flat video in which \<^verbatim>\<open>start()\<close> of the
  detection worker raises while the decode worker is running: the decode worker is
  the one worker joined, with the timeout.
\<close>

theorem failure_path_witness:
  "thread_start (stuck_world True) VIDEO = None
   \<and> thread_start (stuck_world True) YOLO = Some (Exception ''start'')
   \<and> fst (analyze_video (stuck_world True) (app0 ''FFmpeg'' None)) = Raised (Exception ''start'')
   \<and> log_thread_stop_event (snd (analyze_video (stuck_world True) (app0 ''FFmpeg'' None)))
   \<and> (\<exists>before joined.
         events (snd (analyze_video (stuck_world True) (app0 ''FFmpeg'' None)))
           = before @ [LogError (Exception ''start''), SetStop] @ map (\<lambda>u. Join u (Some 1)) joined
         \<and> set joined = {VIDEO})"
proof -
  let ?w = "stuck_world True"
  let ?st = "app0 ''FFmpeg'' None"
  have a: "thread_start ?w VIDEO = None" "thread_start ?w YOLO = Some (Exception ''start'')"
    by (simp_all add: stuck_world_def example_defs)
  have cause: "check_create_output_folder ?w (video_path ?st) = Some (Exception ''start'')
     \<or> (check_create_output_folder ?w (video_path ?st) = None
          \<and> set_video_info ?w (video_path ?st) = Inl (Exception ''start''))
     \<or> (check_create_output_folder ?w (video_path ?st) = None
          \<and> set_video_info ?w (video_path ?st) = Inr flat_video
          \<and> make_queues ?w = Some (Exception ''start''))
     \<or> (check_create_output_folder ?w (video_path ?st) = None
          \<and> set_video_info ?w (video_path ?st) = Inr flat_video \<and> make_queues ?w = None
          \<and> workers (conversion ?st flat_video) = [] @ VIDEO # [YOLO, YOLO_ANALYSIS]
          \<and> (\<forall>u\<in>set []. make_worker ?w u = None)
          \<and> make_worker ?w VIDEO = Some (Exception ''start''))
     \<or> (check_create_output_folder ?w (video_path ?st) = None
          \<and> set_video_info ?w (video_path ?st) = Inr flat_video \<and> make_queues ?w = None
          \<and> (\<forall>u\<in>set (workers (conversion ?st flat_video)). make_worker ?w u = None)
          \<and> start_monitor ?w = Some (Exception ''start''))
     \<or> (check_create_output_folder ?w (video_path ?st) = None
          \<and> set_video_info ?w (video_path ?st) = Inr flat_video \<and> make_queues ?w = None
          \<and> (\<forall>u\<in>set (workers (conversion ?st flat_video)). make_worker ?w u = None)
          \<and> start_monitor ?w = None
          \<and> workers (conversion ?st flat_video) = [VIDEO] @ YOLO # [YOLO_ANALYSIS]
          \<and> (\<forall>u\<in>set [VIDEO]. thread_start ?w u = None \<and> (SEQUENTIAL_MODE ?w \<longrightarrow> finishes ?w u))
          \<and> thread_start ?w YOLO = Some (Exception ''start''))"
    by (simp add: stuck_world_def example_defs conversion_def workers_def)
  have alive: "{u. is_alive ?w (snd (analyze_video ?w ?st)) u} = {VIDEO}"
    by (auto simp: pipeline_defs example_defs stuck_world_def)
  from failure_path [OF cause] a alive show ?thesis
    by simp
qed

subsection \<open>The concurrent branch when every worker starts and ends\<close>

lemma start_all_ok:
  "\<forall>t\<in>set ts. thread_start w t = None \<Longrightarrow>
     start_all w ts r = (Next, r\<lparr>started := started r @ ts, events := events r @ map Start ts\<rparr>)"
proof (induction ts arbitrary: r)
  case Nil
  show ?case by simp
next
  case (Cons t ts)
  then show ?case by (simp add: start_def emit_def)
qed

lemma join_all_ok:
  "\<forall>t\<in>set ts. finishes w t \<Longrightarrow>
     \<exists>r'. join_all w ts r = (Next, r') \<and> events r' = events r @ map (\<lambda>t. Join t None) ts
        \<and> finished r' = finished r @ ts \<and> started r' = started r \<and> threads r' = threads r
        \<and> state r' = state r"
proof (induction ts arbitrary: r)
  case Nil
  show ?case by simp
next
  case (Cons t ts)
  let ?r1 = "emit [Join t None] (r\<lparr>finished := finished r @ [t],
     queues := put_all (output_queue (use_open_gl (state r)) t) (pushed w t) (queues r)\<rparr>)"
  from Cons.prems have "join w t r = (Next, ?r1)"
    by (simp add: join_def)
  moreover obtain r' where "join_all w ts ?r1 = (Next, r')"
    "events r' = events ?r1 @ map (\<lambda>t. Join t None) ts"
    "finished r' = finished ?r1 @ ts" "started r' = started ?r1" "threads r' = threads ?r1"
    "state r' = state ?r1"
    using Cons.IH [of ?r1] Cons.prems by auto
  ultimately show ?case by simp
qed

lemma check_all_events:
  "events (snd (check_all w ts r)) =
     events r @ map CheckException
       (takeWhile (\<lambda>t. stored_exception w t = None) ts
        @ take 1 (dropWhile (\<lambda>t. stored_exception w t = None) ts))"
  by (induction ts arbitrary: r) (auto simp: check_exception_def split: option.splits)

lemma check_all_fst:
  "fst (check_all w ts r) =
     (case List.map_filter (stored_exception w) ts of [] \<Rightarrow> Next | e # es \<Rightarrow> Raise e)"
  by (induction ts arbitrary: r)
    (auto simp: check_exception_def List.map_filter_simps split: option.splits)

lemma check_all_finished [simp]: "finished (snd (check_all w ts r)) = finished r"
  by (induction ts arbitrary: r) (simp_all split: option.splits)

lemma finish_finished [simp]: "finished (snd (finish w r)) = finished r"
  by (simp add: finish_def Let_def split: option.splits sum.splits)

lemma run_concurrent_ok:
  assumes "\<forall>t\<in>set (workers (use_open_gl (state r))). thread_start w t = None \<and> finishes w t"
  shows "\<exists>r'. run_concurrent w r = check_all w (workers (use_open_gl (state r))) r'
           \<and> events r' = events r @ map Start (workers (use_open_gl (state r)))
                 @ map (\<lambda>t. Join t None) (workers (use_open_gl (state r)))
           \<and> finished r' = finished r @ workers (use_open_gl (state r))
           \<and> threads r' = workers (use_open_gl (state r))"
proof -
  let ?ts = "workers (use_open_gl (state r))"
  let ?r1 = "r\<lparr>threads := ?ts\<rparr>"
  let ?r2 = "?r1\<lparr>started := started ?r1 @ ?ts, events := events ?r1 @ map Start ?ts\<rparr>"
  have s: "start_all w ?ts ?r1 = (Next, ?r2)"
    using assms by (intro start_all_ok) simp
  obtain r' where j: "join_all w ?ts ?r2 = (Next, r')"
    "events r' = events ?r2 @ map (\<lambda>t. Join t None) ?ts"
    "finished r' = finished ?r2 @ ?ts" "threads r' = threads ?r2"
    using join_all_ok [of ?ts w ?r2] assms by auto
  have th: "threads ?r1 = ?ts"
    by simp
  have "run_concurrent w r = check_all w ?ts r'"
    by (simp only: run_concurrent_def Let_def th s j(1) then_do_simps)
  with j show ?thesis by (intro exI [of _ r']) simp
qed

lemma handler_filter_alive:
  assumes "\<not> P SetStop" and "\<not> P (LogError e)"
    and "\<And>t. t \<in> set (threads r) \<Longrightarrow> is_alive w r t \<Longrightarrow> \<not> P (Join t (Some 1))"
  shows "filter P (events (handler w e r)) = filter P (events r)"
  using assms by (simp add: handler_def filter_empty_conv)

lemma analyze_video_filter:
  assumes "\<not> P SetStop" and "\<And>e. \<not> P (LogError e)"
    and "\<And>t. t \<in> set (threads (snd (try_body w (new_run st)))) \<Longrightarrow>
            is_alive w (snd (try_body w (new_run st))) t \<Longrightarrow> \<not> P (Join t (Some 1))"
  shows "filter P (events (snd (analyze_video w st)))
           = filter P (events (snd (try_body w (new_run st))))"
proof (cases "try_body w (new_run st)")
  case (Pair s r)
  with assms show ?thesis
    by (cases s) (simp_all add: analyze_video_def handler_filter_alive)
qed

lemma analyze_video_fst:
  "fst (analyze_video w st) =
     (case try_body w (new_run st) of (Next, r) \<Rightarrow> Returned (result_q (queues r))
        | (Raise e, r) \<Rightarrow> Raised e | (Block, r) \<Rightarrow> Hangs)"
  by (simp add: analyze_video_def split: prod.splits status.splits)

subsection \<open>The order of the concurrent branch\<close>





subsection \<open>After the preparation\<close>

lemma check_all_filter:
  "(\<And>t. t \<in> set ts \<Longrightarrow> \<not> P (CheckException t)) \<Longrightarrow>
     filter P (events (snd (check_all w ts r))) = filter P (events r)"
  by (induction ts arbitrary: r) (simp_all split: option.splits)

lemma run_concurrent_filter:
  assumes "\<And>t. t \<in> set (workers (use_open_gl (state r))) \<Longrightarrow>
             \<not> P (Start t) \<and> \<not> P (Join t None) \<and> \<not> P (CheckException t)"
  shows "filter P (events (snd (run_concurrent w r))) = filter P (events r)"
  unfolding run_concurrent_def Let_def
  by (intro then_do_snd [where P = "\<lambda>x. filter P (events x) = filter P (events r)"])
    (simp_all add: start_all_filter join_all_filter check_all_filter assms)

lemma try_body_threads:
  "set (threads (snd (try_body w (new_run st))))
     \<subseteq> set (workers (use_open_gl (state (snd (prepare w (new_run st))))))"
proof -
  let ?p = "snd (prepare w (new_run st))"
  let ?S = "set (workers (use_open_gl (state ?p)))"
  let ?mode = "if SEQUENTIAL_MODE w then run_sequential w else run_concurrent w"
  let ?I = "\<lambda>x::run. set (threads x) \<subseteq> ?S \<and> state x = state ?p"
  have p: "?I ?p"
    by (simp add: new_run_def)
  have mode: "?I (snd (?mode x))" if "?I x" for x
    using that by simp
  have "?I (snd (then_do (prepare w (new_run st)) ?mode))"
    using p mode by (rule then_do_snd [where P = ?I])
  then have "set (threads (snd (then_do (prepare w (new_run st)) ?mode))) \<subseteq> ?S"
    by simp
  moreover have "set (threads (snd (finish w x))) \<subseteq> ?S" if "set (threads x) \<subseteq> ?S" for x
    using that by simp
  ultimately have "set (threads (snd (then_do (then_do (prepare w (new_run st)) ?mode) (finish w)))) \<subseteq> ?S"
    by (rule then_do_snd [where P = "\<lambda>x. set (threads x) \<subseteq> ?S"])
  then show ?thesis
    by (simp only: try_body_def)
qed

lemma later_filter:
  assumes "\<And>t. t \<noteq> OPENGL \<Longrightarrow> \<not> P (Start t) \<and> \<not> P (CheckException t)"
    and "\<And>t timeout. t \<noteq> OPENGL \<Longrightarrow> \<not> P (Join t timeout)"
    and "\<And>q. \<not> P (Put q Sentinel)" and "\<not> P SetStop" and "\<And>x. \<not> P (LogPerformance x)"
    and "\<And>m. \<not> P (UpdateUI m)" and "\<And>e. \<not> P (LogError e)"
    and "\<not> use_open_gl (state (snd (prepare w (new_run st))))"
  shows "filter P (events (snd (analyze_video w st)))
           = filter P (events (snd (prepare w (new_run st))))"
proof -
  let ?p = "snd (prepare w (new_run st))"
  let ?mode = "if SEQUENTIAL_MODE w then run_sequential w else run_concurrent w"
  let ?I = "\<lambda>x::run. filter P (events x) = filter P (events ?p) \<and> state x = state ?p"
  have ws: "t \<noteq> OPENGL" if "t \<in> set (workers (use_open_gl (state ?p)))" for t
    using that assms(8) by (auto simp: workers_def)
  have seq: "filter P (events (snd (run_sequential w x))) = filter P (events x)"
    if "state x = state ?p" for x
  proof (rule run_sequential_filter)
    fix t assume "t \<in> set (workers (use_open_gl (state x)))"
    then have "t \<noteq> OPENGL" using ws that by simp
    then show "\<not> P (Start t) \<and> \<not> P (Join t None)" using assms(1,2) by simp
  next
    fix q show "\<not> P (Put q Sentinel)" by (rule assms(3))
  qed
  have con: "filter P (events (snd (run_concurrent w x))) = filter P (events x)"
    if "state x = state ?p" for x
  proof (rule run_concurrent_filter)
    fix t assume "t \<in> set (workers (use_open_gl (state x)))"
    then have "t \<noteq> OPENGL" using ws that by simp
    then show "\<not> P (Start t) \<and> \<not> P (Join t None) \<and> \<not> P (CheckException t)"
      using assms(1,2) by simp
  qed
  have mode: "?I (snd (?mode x))" if "?I x" for x
    using that seq [of x] con [of x] by simp
  have "?I ?p" by simp
  then have "?I (snd (then_do (prepare w (new_run st)) ?mode))"
    using mode by (rule then_do_snd [where P = ?I])
  then have "filter P (events (snd (then_do (prepare w (new_run st)) ?mode))) = filter P (events ?p)"
    by simp
  moreover have "filter P (events (snd (finish w x))) = filter P (events ?p)"
    if "filter P (events x) = filter P (events ?p)" for x
    using that assms(4-6) by (simp add: finish_filter)
  ultimately have "filter P (events (snd (then_do (then_do (prepare w (new_run st)) ?mode) (finish w))))
      = filter P (events ?p)"
    by (rule then_do_snd [where P = "\<lambda>x. filter P (events x) = filter P (events ?p)"])
  then have "filter P (events (snd (try_body w (new_run st)))) = filter P (events ?p)"
    by (simp only: try_body_def)
  moreover have "filter P (events (snd (analyze_video w st)))
      = filter P (events (snd (try_body w (new_run st))))"
  proof (rule analyze_video_filter)
    show "\<not> P SetStop" by (rule assms(4))
    show "\<not> P (LogError e)" for e by (rule assms(7))
    fix t assume "t \<in> set (threads (snd (try_body w (new_run st))))"
    then have "t \<noteq> OPENGL" using try_body_threads [of w st] ws by blast
    then show "\<not> P (Join t (Some 1))" by (rule assms(2))
  qed
  ultimately show ?thesis by simp
qed

lemma disable_opengl_warnings:
  "\<exists>ms. fst (disable_opengl st) = map Warn ms
      \<and> (video_reader st = ''FFmpeg + OpenGL (Windows)''
           \<and> (\<not> is_vr (video_info st) \<or> is_fisheye (video_info st)) \<longrightarrow> ms \<noteq> [])"
proof (cases "video_reader st = ''FFmpeg + OpenGL (Windows)''")
  case False
  then show ?thesis by (simp add: disable_opengl_def)
next
  case True
  let ?a = "''Disabled OpenGL in the pipeline as it's not needed for 2D videos''"
  let ?b = "''Disabled OpenGL as fisheye is not yet supported with the opengl feature''"
  let ?ms = "(if \<not> is_vr (video_info st) then [?a] else []) @ (if is_fisheye (video_info st) then [?b] else [])"
  have "fst (disable_opengl st) = map Warn ?ms"
    using True by (simp add: disable_opengl_def Let_def)
  moreover have "\<not> is_vr (video_info st) \<or> is_fisheye (video_info st) \<longrightarrow> ?ms \<noteq> []"
    by simp
  ultimately show ?thesis by blast
qed

subsection \<open>The workers that are started\<close>

lemma join_started [simp]: "started (snd (join w t r)) = started r"
  by (simp add: join_def)

lemma join_all_started [simp]: "started (snd (join_all w ts r)) = started r"
proof (induction ts arbitrary: r)
  case Nil
  show ?case by simp
next
  case (Cons t ts)
  show ?case
    by (simp, rule then_do_snd [where P = "\<lambda>x. started x = started r"]) (simp_all add: Cons.IH)
qed

lemma check_all_started [simp]: "started (snd (check_all w ts r)) = started r"
  by (induction ts arbitrary: r) (simp_all split: option.splits)

lemma finish_started [simp]: "started (snd (finish w r)) = started r"
  by (simp add: finish_def Let_def split: option.splits sum.splits)

lemma handler_started [simp]: "started (handler w e r) = started r"
  by (simp add: handler_def)

lemma prepare_started [simp]: "started (snd (prepare w r)) = started r"
  by (simp add: prepare_defs Let_def split: option.splits sum.splits prod.splits list.splits)

lemma run_thread_Next:
  "run_thread w t q r = (Next, r') \<Longrightarrow> started r' = started r @ [t] \<and> state r' = state r"
  by (auto simp: run_thread_def start_def join_def then_do_Next split: option.splits if_splits)

lemma run_sequential_Next:
  "run_sequential w r = (Next, r') \<Longrightarrow> started r' = started r @ workers (use_open_gl (state r))"
  by (auto simp: run_sequential_def then_do_Next workers_def dest!: run_thread_Next split: if_splits)

lemma start_all_Next:
  "start_all w ts r = (Next, r') \<Longrightarrow> started r' = started r @ ts"
proof (induction ts arbitrary: r)
  case Nil
  then show ?case by simp
next
  case (Cons t ts)
  then show ?case
    by (auto simp: then_do_Next start_def split: option.splits)
qed

lemma run_concurrent_Next:
  assumes "run_concurrent w r = (Next, r')"
  shows "started r' = started r @ workers (use_open_gl (state r))"
proof -
  let ?ts = "workers (use_open_gl (state r))"
  obtain r1 r2 where 1: "start_all w ?ts (r\<lparr>threads := ?ts\<rparr>) = (Next, r1)"
    and 2: "join_all w ?ts r1 = (Next, r2)" and 3: "check_all w ?ts r2 = (Next, r')"
    using assms by (auto simp: run_concurrent_def Let_def then_do_Next)
  have "started r' = started r2"
    using check_all_started [of w ?ts r2] 3 by simp
  also have "\<dots> = started r1"
    using join_all_started [of w ?ts r1] 2 by simp
  also have "\<dots> = started r @ ?ts"
    using start_all_Next [OF 1] by simp
  finally show ?thesis .
qed

lemma try_body_Next:
  assumes "try_body w (new_run st) = (Next, r')"
  shows "started r' = workers (use_open_gl (state (snd (prepare w (new_run st)))))"
proof -
  obtain r0 r1 where 0: "prepare w (new_run st) = (Next, r0)"
    and 1: "(if SEQUENTIAL_MODE w then run_sequential w else run_concurrent w) r0 = (Next, r1)"
    and 2: "finish w r1 = (Next, r')"
    using assms by (auto simp: try_body_def then_do_Next)
  have "started r0 = []"
    using arg_cong [OF 0, of "\<lambda>x. started (snd x)"] by (simp add: new_run_def)
  moreover have "started r1 = started r0 @ workers (use_open_gl (state r0))"
    using 1 run_sequential_Next [of w r0 r1] run_concurrent_Next [of w r0 r1]
    by (simp split: if_splits)
  moreover have "started r' = started r1"
    using finish_started [of w r1] 2 by simp
  ultimately show ?thesis using 0 by simp
qed

lemma start_started: "set (started (snd (start w t r))) \<subseteq> insert t (set (started r))"
  by (auto simp: start_def split: option.splits)

lemma run_thread_started:
  "set (started (snd (run_thread w t q r))) \<subseteq> insert t (set (started r))"
proof -
  let ?S = "insert t (set (started r))"
  have "set (started (snd (then_do (start w t r) (join w t)))) \<subseteq> ?S"
    by (rule then_do_snd [where P = "\<lambda>x. set (started x) \<subseteq> ?S"]) (simp_all add: start_started)
  then show ?thesis
    unfolding run_thread_def
    by (rule then_do_snd [where P = "\<lambda>x. set (started x) \<subseteq> ?S"]) simp
qed

lemma run_sequential_started:
  "set (started (snd (run_sequential w r)))
     \<subseteq> set (started r) \<union> set (workers (use_open_gl (state r)))"
proof -
  let ?S = "set (started r) \<union> set (workers (use_open_gl (state r)))"
  let ?I = "\<lambda>x::run. set (started x) \<subseteq> ?S \<and> state x = state r"
  have step: "?I (snd (run_thread w t q x))" if "?I x" "t \<in> set (workers (use_open_gl (state r)))" for t q x
    using that run_thread_started [of w t q x] by auto
  have "?I (snd (run_sequential w r))"
    unfolding run_sequential_def
  proof (intro then_do_snd [where P = ?I])
    show "?I (snd (run_thread w VIDEO Opengl_q r))"
      by (rule step) (simp_all add: workers_def)
  next
    fix x assume "?I x"
    then show "?I (snd (if use_open_gl (state x) then run_thread w OPENGL Yolo_q x else (Next, x)))"
      using step [of x OPENGL Yolo_q] by (auto simp: workers_def)
  next
    fix x assume "?I x"
    then show "?I (snd (run_thread w YOLO Analysis_q x))"
      by (rule step) (simp add: workers_def)
  next
    fix x assume "?I x"
    then show "?I (snd (run_thread w YOLO_ANALYSIS Result_q x))"
      by (rule step) (simp add: workers_def)
  qed
  then show ?thesis by simp
qed

lemma start_all_started:
  "set (started (snd (start_all w ts r))) \<subseteq> set (started r) \<union> set ts"
proof (induction ts arbitrary: r)
  case Nil
  show ?case by simp
next
  case (Cons t ts)
  let ?S = "set (started r) \<union> set (t # ts)"
  have a: "set (started (snd (start w t r))) \<subseteq> ?S"
    using start_started [of w t r] by auto
  have b: "set (started (snd (start_all w ts x))) \<subseteq> ?S" if "set (started x) \<subseteq> ?S" for x
    using that Cons.IH [of x] by auto
  have "set (started (snd (then_do (start w t r) (start_all w ts)))) \<subseteq> ?S"
    using a b by (rule then_do_snd [where P = "\<lambda>x. set (started x) \<subseteq> ?S"])
  then show ?case by simp
qed

lemma run_concurrent_started:
  "set (started (snd (run_concurrent w r)))
     \<subseteq> set (started r) \<union> set (workers (use_open_gl (state r)))"
proof -
  let ?ts = "workers (use_open_gl (state r))"
  let ?S = "set (started r) \<union> set ?ts"
  let ?J = "\<lambda>x::run. set (started x) \<subseteq> ?S"
  have a: "?J (snd (start_all w ?ts (r\<lparr>threads := ?ts\<rparr>)))"
    using start_all_started [of w ?ts "r\<lparr>threads := ?ts\<rparr>"] by simp
  have b: "?J (snd (join_all w ?ts x))" if "?J x" for x
    using that by simp
  have c: "?J (snd (check_all w ?ts x))" if "?J x" for x
    using that by simp
  have "?J (snd (then_do (start_all w ?ts (r\<lparr>threads := ?ts\<rparr>)) (join_all w ?ts)))"
    using a b by (rule then_do_snd [where P = ?J])
  then have "?J (snd (then_do (then_do (start_all w ?ts (r\<lparr>threads := ?ts\<rparr>)) (join_all w ?ts))
      (check_all w ?ts)))"
    using c by (rule then_do_snd [where P = ?J])
  then show ?thesis
    by (simp add: run_concurrent_def Let_def)
qed

lemma analyze_video_started:
  "set (started (snd (analyze_video w st)))
     \<subseteq> set (workers (use_open_gl (state (snd (prepare w (new_run st))))))"
proof -
  let ?p = "snd (prepare w (new_run st))"
  let ?S = "set (workers (use_open_gl (state ?p)))"
  let ?mode = "if SEQUENTIAL_MODE w then run_sequential w else run_concurrent w"
  let ?I = "\<lambda>x::run. set (started x) \<subseteq> ?S \<and> state x = state ?p"
  have p: "?I ?p"
    by (simp add: new_run_def)
  have mode: "?I (snd (?mode x))" if "?I x" for x
    using that run_sequential_started [of w x] run_concurrent_started [of w x] by auto
  have "?I (snd (then_do (prepare w (new_run st)) ?mode))"
    using p mode by (rule then_do_snd [where P = ?I])
  then have "set (started (snd (then_do (prepare w (new_run st)) ?mode))) \<subseteq> ?S"
    by simp
  moreover have "set (started (snd (finish w x))) \<subseteq> ?S" if "set (started x) \<subseteq> ?S" for x
    using that by simp
  ultimately have "set (started (snd (then_do (then_do (prepare w (new_run st)) ?mode) (finish w)))) \<subseteq> ?S"
    by (rule then_do_snd [where P = "\<lambda>x. set (started x) \<subseteq> ?S"])
  then have b: "set (started (snd (try_body w (new_run st)))) \<subseteq> ?S"
    by (simp only: try_body_def)
  show ?thesis
  proof (cases "try_body w (new_run st)")
    case (Pair s r)
    with b show ?thesis
      by (cases s) (simp_all add: analyze_video_def)
  qed
qed


lemma prepare_gl:
  assumes "check_create_output_folder w (video_path st) = None"
    and "set_video_info w (video_path st) = Inr info"
  shows "use_open_gl (state (snd (prepare w (new_run st)))) = conversion st info"
  using prepare_reader [OF assms] use_open_gl_disable [where st = st and info = info]
  by (simp add: use_open_gl_def)

lemma prepare_events:
  assumes "check_create_output_folder w (video_path st) = None"
    and "set_video_info w (video_path st) = Inr info"
  shows "filter setup_event (events (snd (prepare w (new_run st))))
           = filter setup_event (fst (disable_opengl (st\<lparr>video_info := info\<rparr>)))
             @ (if make_queues w = None
                then map Create (takeWhile (\<lambda>t. make_worker w t = None)
                       (workers (conversion st info)))
                else [])"
  using assms use_open_gl_disable [where st = st and info = info]
  by (auto simp add: prepare_defs new_run_def Let_def use_open_gl_def emit_def filter_id_conv
      split: prod.splits option.splits list.splits)

subsection \<open>Videos that need no conversion\<close>

text \<open>
  C6. For a video that is not VR, or is fisheye, whatever reader is asked for: the
  conversion path is off in the state the call leaves; the warnings and the
  constructions of workers, in the order they happen, are the warnings first (at
  least one when the OpenGL reader was asked for) and then, unless the construction
  of the queues raises, the decode, detection and analysis workers up to the first
  whose constructor raises, and no other; the OpenGL
  worker is never started; and a call that returns has started exactly the decode,
  detection and analysis workers, in this order.
\<close>

theorem flat_or_fisheye_runs_without_conversion:
  assumes "check_create_output_folder w (video_path st) = None"
    and "set_video_info w (video_path st) = Inr info"
    and "\<not> is_vr info \<or> is_fisheye info"
  shows "\<not> use_open_gl (state (snd (analyze_video w st)))
     \<and> (\<exists>ms. filter setup_event (events (snd (analyze_video w st)))
                = map Warn ms
                  @ (if make_queues w = None
                     then map Create (takeWhile (\<lambda>t. make_worker w t = None)
                            [VIDEO, YOLO, YOLO_ANALYSIS])
                     else [])
              \<and> (video_reader st = ''FFmpeg + OpenGL (Windows)'' \<longrightarrow> ms \<noteq> []))
     \<and> OPENGL \<notin> set (started (snd (analyze_video w st)))
     \<and> (\<forall>xs. fst (analyze_video w st) = Returned xs
           \<longrightarrow> started (snd (analyze_video w st)) = [VIDEO, YOLO, YOLO_ANALYSIS])"
proof -
  let ?p = "snd (prepare w (new_run st))"
  let ?r = "snd (analyze_video w st)"
  have off: "\<not> conversion st info"
    using assms(3) by (auto simp: conversion_def)
  have gl: "\<not> use_open_gl (state ?p)"
    using prepare_gl [OF assms(1,2)] off by simp
  have 1: "\<not> use_open_gl (state ?r)"
    using gl by (simp add: use_open_gl_def analyze_video_reader)
  obtain ms where ms: "fst (disable_opengl (st\<lparr>video_info := info\<rparr>)) = map Warn ms"
    "video_reader st = ''FFmpeg + OpenGL (Windows)'' \<longrightarrow> ms \<noteq> []"
    using disable_opengl_warnings [of "st\<lparr>video_info := info\<rparr>"] assms(3) by auto
  have "filter setup_event (events ?r) = filter setup_event (events ?p)"
    using gl by (intro later_filter) simp_all
  also have "\<dots> = map Warn ms
      @ (if make_queues w = None
         then map Create (takeWhile (\<lambda>t. make_worker w t = None) [VIDEO, YOLO, YOLO_ANALYSIS])
         else [])"
    using off by (simp add: prepare_events [OF assms(1,2)] ms(1) workers_def filter_id_conv)
  finally have 2: "\<exists>ms. filter setup_event (events ?r)
                = map Warn ms
                  @ (if make_queues w = None
                     then map Create (takeWhile (\<lambda>t. make_worker w t = None)
                            [VIDEO, YOLO, YOLO_ANALYSIS])
                     else [])
              \<and> (video_reader st = ''FFmpeg + OpenGL (Windows)'' \<longrightarrow> ms \<noteq> [])"
    using ms(2) by blast
  have 3: "OPENGL \<notin> set (started ?r)"
    using analyze_video_started [of w st] gl by (auto simp: workers_def)
  have 4: "started ?r = [VIDEO, YOLO, YOLO_ANALYSIS]" if "fst (analyze_video w st) = Returned xs" for xs
  proof -
    obtain s r' where tb: "try_body w (new_run st) = (s, r')"
      by fastforce
    with that have s: "s = Next"
      by (cases s) (simp_all add: analyze_video_def)
    with tb have "?r = r'"
      by (simp add: analyze_video_def)
    then show ?thesis
      using try_body_Next [of w st r'] tb s gl by (simp add: workers_def)
  qed
  from 1 2 3 4 show ?thesis by blast
qed

text \<open>C6 at a flat video with the OpenGL reader asked for.\<close>

theorem flat_or_fisheye_runs_without_conversion_witness:
  "check_create_output_folder (calm_world False flat_video [unit1])
      (video_path (app0 ''FFmpeg + OpenGL (Windows)'' None)) = None
   \<and> set_video_info (calm_world False flat_video [unit1])
      (video_path (app0 ''FFmpeg + OpenGL (Windows)'' None)) = Inr flat_video
   \<and> \<not> is_vr flat_video
   \<and> \<not> use_open_gl (state (snd (analyze_video (calm_world False flat_video [unit1])
         (app0 ''FFmpeg + OpenGL (Windows)'' None))))
   \<and> OPENGL \<notin> set (started (snd (analyze_video (calm_world False flat_video [unit1])
         (app0 ''FFmpeg + OpenGL (Windows)'' None))))
   \<and> started (snd (analyze_video (calm_world False flat_video [unit1])
         (app0 ''FFmpeg + OpenGL (Windows)'' None))) = [VIDEO, YOLO, YOLO_ANALYSIS]"
proof -
  let ?w = "calm_world False flat_video [unit1]"
  let ?st = "app0 ''FFmpeg + OpenGL (Windows)'' None"
  have a: "check_create_output_folder ?w (video_path ?st) = None"
    by (simp add: example_defs)
  have b: "set_video_info ?w (video_path ?st) = Inr flat_video"
    by (simp add: example_defs)
  have c: "\<not> is_vr flat_video \<or> is_fisheye flat_video"
    by (simp add: example_defs)
  have d: "fst (analyze_video ?w ?st) = Returned [unit1]"
    by (simp add: pipeline_defs example_defs)
  have e: "\<not> is_vr flat_video"
    by (simp add: example_defs)
  from flat_or_fisheye_runs_without_conversion [OF a b c] a b d e show ?thesis
    by simp
qed

subsection \<open>Stage errors in sequential mode\<close>

text \<open>
  C9. In sequential mode no call of \<^verbatim>\<open>check_exception()\<close> occurs, and the whole
  result of \<open>analyze_video\<close> (what it returns or raises, the state, the queues, the
  events) is the one of the same run in which no worker stored an error.
\<close>

theorem sequential_mode_ignores_stored_errors:
  assumes "SEQUENTIAL_MODE w"
  shows "(\<forall>t. CheckException t \<notin> set (events (snd (analyze_video w st))))
     \<and> analyze_video w st = analyze_video (w\<lparr>stored_exception := \<lambda>t. None\<rparr>) st"
proof -
  have "filter is_check (events (snd (analyze_video w st))) = []"
    using assms by (rule sequential_no_check)
  then have "\<not> is_check x" if "x \<in> set (events (snd (analyze_video w st)))" for x
    using that by (simp add: filter_empty_conv)
  then have "\<forall>t. CheckException t \<notin> set (events (snd (analyze_video w st)))"
    by fastforce
  moreover have "analyze_video w st = analyze_video (w\<lparr>stored_exception := \<lambda>t. None\<rparr>) st"
    using assms by (simp add: analyze_video_stored)
  ultimately show ?thesis by blast
qed

text \<open>
  C9 at a sequential run whose detection and analysis workers stored an error: the
  call returns the results queue.
\<close>

theorem sequential_mode_ignores_stored_errors_witness:
  "SEQUENTIAL_MODE ((calm_world True flat_video [unit1])\<lparr>stored_exception := stage_errors\<rparr>)
   \<and> stored_exception ((calm_world True flat_video [unit1])\<lparr>stored_exception := stage_errors\<rparr>) YOLO
       = Some (Exception ''yolo'')
   \<and> fst (analyze_video ((calm_world True flat_video [unit1])\<lparr>stored_exception := stage_errors\<rparr>)
         (app0 ''FFmpeg'' None)) = Returned [unit1, Sentinel]"
proof -
  let ?w = "(calm_world True flat_video [unit1])\<lparr>stored_exception := stage_errors\<rparr>"
  have a: "SEQUENTIAL_MODE ?w"
    by (simp add: example_defs)
  have b: "fst (analyze_video (?w\<lparr>stored_exception := \<lambda>t. None\<rparr>) (app0 ''FFmpeg'' None))
      = Returned [unit1, Sentinel]"
    by (simp add: pipeline_defs example_defs)
  from sequential_mode_ignores_stored_errors [OF a, of "app0 ''FFmpeg'' None"] a b show ?thesis
    by simp
qed

subsection \<open>The reader preference after the call\<close>

text \<open>
  C10. When the folder check and the probe succeed, the OpenGL reader is asked for
  and the video is not VR or is fisheye, the state that \<open>analyze_video\<close> leaves,
  however the call ends, has the plain reader \<^verbatim>\<open>"FFmpeg"\<close> in \<open>video_reader\<close>, which is
  not the reader the caller asked for.
\<close>

theorem reader_preference_overwritten:
  assumes "check_create_output_folder w (video_path st) = None"
    and "set_video_info w (video_path st) = Inr info"
    and "video_reader st = ''FFmpeg + OpenGL (Windows)''"
    and "\<not> is_vr info \<or> is_fisheye info"
  shows "video_reader (state (snd (analyze_video w st))) = ''FFmpeg''
     \<and> video_reader (state (snd (analyze_video w st))) \<noteq> video_reader st"
  using assms by (simp add: analyze_video_reader prepare_reader disable_opengl_reader)

text \<open>C10 at a flat video with the OpenGL reader asked for.\<close>

theorem reader_preference_overwritten_witness:
  "check_create_output_folder (calm_world False flat_video [unit1])
      (video_path (app0 ''FFmpeg + OpenGL (Windows)'' None)) = None
   \<and> set_video_info (calm_world False flat_video [unit1])
      (video_path (app0 ''FFmpeg + OpenGL (Windows)'' None)) = Inr flat_video
   \<and> video_reader (app0 ''FFmpeg + OpenGL (Windows)'' None) = ''FFmpeg + OpenGL (Windows)''
   \<and> \<not> is_vr flat_video
   \<and> video_reader (state (snd (analyze_video (calm_world False flat_video [unit1])
         (app0 ''FFmpeg + OpenGL (Windows)'' None)))) = ''FFmpeg''"
proof -
  let ?w = "calm_world False flat_video [unit1]"
  let ?st = "app0 ''FFmpeg + OpenGL (Windows)'' None"
  have a: "check_create_output_folder ?w (video_path ?st) = None"
    by (simp add: example_defs)
  have b: "set_video_info ?w (video_path ?st) = Inr flat_video"
    by (simp add: example_defs)
  have c: "video_reader ?st = ''FFmpeg + OpenGL (Windows)''"
    by (simp add: example_defs)
  have d: "\<not> is_vr flat_video \<or> is_fisheye flat_video"
    by (simp add: example_defs)
  have e: "\<not> is_vr flat_video"
    by (simp add: example_defs)
  from reader_preference_overwritten [OF a b c d] a b c e show ?thesis
    by simp
qed


subsection \<open>The queues of a sequential run\<close>

text \<open>
  What C1 and C2 show at one run holds of every sequential run that returns,
  whatever the workers put on their queues: the orchestrator's sentinel is the last
  element of the returned results queue and of the analysis queue, and without
  OpenGL the decode stage's sentinel is alone on \<open>opengl_q\<close> while \<open>yolo_q\<close> holds what
  the decode worker put there and nothing else.
\<close>

lemma finish_queues [simp]: "queues (snd (finish w r)) = queues r"
  by (simp add: finish_def Let_def split: option.splits sum.splits)

lemma prepare_queues [simp]: "queues (snd (prepare w r)) = queues r"
  by (simp add: prepare_defs Let_def split: option.splits sum.splits prod.splits list.splits)

lemma run_thread_queues:
  "run_thread w t q r = (Next, r') \<Longrightarrow>
     queues r' = put q Sentinel (put_all (output_queue (use_open_gl (state r)) t) (pushed w t) (queues r))
     \<and> state r' = state r"
  by (auto simp: run_thread_def start_def join_def then_do_Next split: option.splits if_splits)

lemma run_sequential_queues:
  assumes "run_sequential w r = (Next, r')"
  shows "received Opengl_q (queues r') = received Opengl_q (queues r)
            @ (if use_open_gl (state r) then pushed w VIDEO else []) @ [Sentinel]"
    and "received Yolo_q (queues r') = received Yolo_q (queues r)
            @ (if use_open_gl (state r) then pushed w OPENGL @ [Sentinel] else pushed w VIDEO)"
    and "received Analysis_q (queues r') = received Analysis_q (queues r) @ pushed w YOLO @ [Sentinel]"
    and "received Result_q (queues r') = received Result_q (queues r) @ pushed w YOLO_ANALYSIS @ [Sentinel]"
proof -
  obtain r1 r2 r3 where a: "run_thread w VIDEO Opengl_q r = (Next, r1)"
    and b: "(if use_open_gl (state r1) then run_thread w OPENGL Yolo_q r1 else (Next, r1)) = (Next, r2)"
    and c: "run_thread w YOLO Analysis_q r2 = (Next, r3)"
    and d: "run_thread w YOLO_ANALYSIS Result_q r3 = (Next, r')"
    using assms by (auto simp: run_sequential_def then_do_Next)
  note qa = run_thread_queues [OF a]
  have qb: "queues r2 = (if use_open_gl (state r)
      then put Yolo_q Sentinel (put_all Yolo_q (pushed w OPENGL) (queues r1)) else queues r1)
      \<and> state r2 = state r"
    using b qa run_thread_queues [of w OPENGL Yolo_q r1 r2] by (auto split: if_splits)
  note qc = run_thread_queues [OF c]
  note qd = run_thread_queues [OF d]
  have q: "queues r' = put Result_q Sentinel (put_all Result_q (pushed w YOLO_ANALYSIS)
      (put Analysis_q Sentinel (put_all Analysis_q (pushed w YOLO) (queues r2))))"
    using qc qd by simp
  show "received Opengl_q (queues r') = received Opengl_q (queues r)
            @ (if use_open_gl (state r) then pushed w VIDEO else []) @ [Sentinel]"
    by (simp add: q qb qa put_def)
  show "received Yolo_q (queues r') = received Yolo_q (queues r)
            @ (if use_open_gl (state r) then pushed w OPENGL @ [Sentinel] else pushed w VIDEO)"
    by (simp add: q qb qa put_def)
  show "received Analysis_q (queues r') = received Analysis_q (queues r) @ pushed w YOLO @ [Sentinel]"
    by (simp add: q qb qa put_def)
  show "received Result_q (queues r') = received Result_q (queues r) @ pushed w YOLO_ANALYSIS @ [Sentinel]"
    by (simp add: q qb qa put_def)
qed

lemma sequential_run_queues:
  assumes "SEQUENTIAL_MODE w" and "fst (analyze_video w st) = Returned xs"
  shows "xs = pushed w YOLO_ANALYSIS @ [Sentinel]"
    and "received Analysis_q (queues (snd (analyze_video w st))) = pushed w YOLO @ [Sentinel]"
    and "\<not> use_open_gl (state (snd (analyze_video w st))) \<Longrightarrow>
           received Yolo_q (queues (snd (analyze_video w st))) = pushed w VIDEO
           \<and> received Opengl_q (queues (snd (analyze_video w st))) = [Sentinel]"
proof -
  obtain s r' where tb: "try_body w (new_run st) = (s, r')"
    by fastforce
  with assms(2) have s: "s = Next"
    by (cases s) (simp_all add: analyze_video_def)
  with tb have r': "snd (analyze_video w st) = r'" "xs = result_q (queues r')"
    using assms(2) by (simp_all add: analyze_video_def)
  obtain r0 r1 where 0: "prepare w (new_run st) = (Next, r0)"
    and 1: "run_sequential w r0 = (Next, r1)" and 2: "finish w r1 = (Next, r')"
    using tb s assms(1) by (auto simp: try_body_def then_do_Next)
  have q0: "queues r0 = queues (new_run st)"
    using arg_cong [OF 0, of "\<lambda>x. queues (snd x)"] by simp
  have q': "queues r' = queues r1"
    using arg_cong [OF 2, of "\<lambda>x. queues (snd x)"] by simp
  have gl: "use_open_gl (state r') = use_open_gl (state r0)"
    using arg_cong [OF 2, of "\<lambda>x. video_reader (state (snd x))"]
      arg_cong [OF 1, of "\<lambda>x. state (snd x)"] by (simp add: use_open_gl_def)
  note q = run_sequential_queues [OF 1]
  show "xs = pushed w YOLO_ANALYSIS @ [Sentinel]"
    using q(4) by (simp add: r' q' q0 new_run_def)
  show "received Analysis_q (queues (snd (analyze_video w st))) = pushed w YOLO @ [Sentinel]"
    using q(3) by (simp add: r' q' q0 new_run_def)
  show "received Yolo_q (queues (snd (analyze_video w st))) = pushed w VIDEO
           \<and> received Opengl_q (queues (snd (analyze_video w st))) = [Sentinel]"
    if "\<not> use_open_gl (state (snd (analyze_video w st)))"
    using that q(1,2) by (simp add: r' q' q0 gl new_run_def)
qed

end
